theory Spec2Isabelle
  imports Main "HOL-Library.Word"
begin

unbundle bit_operations_syntax

section \<open>The YM2151 host interface of box16 (src/ym2151/ym2151.cpp)\<close>

text \<open>
  The file under verification wraps the ymfm tone engine (\<^verbatim>\<open>ymfm::ym2151\<close>) in the class
  \<^verbatim>\<open>ym2151_interface\<close> and exposes it through the free functions \<^verbatim>\<open>YM_*\<close>. It is compiled
  with \<^verbatim>\<open>YM2151_USE_R8BRAIN_RESAMPLING\<close> defined (line 15), so that is the variant of
  \<^verbatim>\<open>generate\<close> embedded here.

  Unsigned 32-bit and 8-bit quantities are words, so that \<open>+\<close>, \<open>-\<close> and \<open>*\<close> wrap as in
  C++. The signed counters \<^verbatim>\<open>m_timers\<close> and \<^verbatim>\<open>m_busy_timer\<close> (\<^verbatim>\<open>int32_t\<close>) and the \<^verbatim>\<open>int\<close> argument
  of \<^verbatim>\<open>update_clocks\<close> are 32-bit words as well, read as two's complement (\<open>sint\<close>) where the
  code compares them. Signed overflow is undefined in C++; the words wrap, which is what
  the compiled program computes, and the theorems about the timers are stated where no
  overflow occurs. Operations with undefined behaviour that the claims touch (a write
  past the end of an array, a division by zero) are error results.
\<close>

subsection \<open>The tone engine\<close>

type_synonym output_data = nat

datatype chip_call =
    WriteAddress "8 word"
  | WriteData "8 word" bool
  | Generate nat
  | EngineTimerExpired nat

record ym2151 =
  chip_address :: "8 word"
  chip_regdata :: "8 word \<Rightarrow> 8 word"
  chip_generated :: nat
  chip_calls :: "chip_call list"

datatype error = BufferOverrun | DivisionByZero

text \<open>
  The tone engine \<^verbatim>\<open>ymfm::ym2151\<close> (ymfm\_opm.h and the files it includes) is missing from
  the sources. The spec treats it as an opaque capability that consumes register
  writes, keeps its own register storage and emits samples at its native rate. The
  model keeps the address latched by the last address write, the register storage, the
  number of samples emitted so far, and a record of every call the interface makes to
  the engine. The \<open>k\<close>-th sample the engine ever emits is the number \<open>k\<close>, so that
  samples are told apart by their position in the engine's output stream. Calls of the
  engine back into the interface (\<^verbatim>\<open>ymfm_set_timer\<close>, \<^verbatim>\<open>ymfm_set_busy_end\<close>, \<^verbatim>\<open>ymfm_update_irq\<close>)
  are operations of the interface below.
\<close>

text \<open>Modelled from the spec: \<^verbatim>\<open>ym2151::write_address\<close>, missing from the sources. The engine
  latches the address of the next data write.\<close>

definition write_address :: "8 word \<Rightarrow> ym2151 \<Rightarrow> ym2151" where
  "write_address addr c = c\<lparr>chip_address := addr, chip_calls := chip_calls c @ [WriteAddress addr]\<rparr>"

text \<open>Modelled from the spec: \<^verbatim>\<open>ym2151::write_data\<close>, missing from the sources. The engine
  consumes the write: its register at the latched address takes the value. The flag is
  box16's \<^verbatim>\<open>debug\<close> argument.\<close>

definition write_data :: "8 word \<Rightarrow> bool \<Rightarrow> ym2151 \<Rightarrow> ym2151" where
  "write_data v dbg c =
     c\<lparr>chip_regdata := (chip_regdata c)(chip_address c := v),
       chip_calls := chip_calls c @ [WriteData v dbg]\<rparr>"

text \<open>Modelled from the spec: \<^verbatim>\<open>get_registers().get_register_data\<close>, missing from the sources:
  a read of the engine's own register storage.\<close>

definition get_register_data :: "ym2151 \<Rightarrow> 8 word \<Rightarrow> 8 word" where
  "get_register_data c addr = chip_regdata c addr"

text \<open>Modelled from the spec: \<^verbatim>\<open>engine_timer_expired\<close>, missing from the sources: the
  notification that a timer ran out. Only the call is recorded.\<close>

definition engine_timer_expired :: "nat \<Rightarrow> ym2151 \<Rightarrow> ym2151" where
  "engine_timer_expired i c = c\<lparr>chip_calls := chip_calls c @ [EngineTimerExpired i]\<rparr>"

text \<open>Modelled from the spec: \<^verbatim>\<open>ym2151::generate\<close>, missing from the sources, as called in
  \<^verbatim>\<open>m_chip.generate(&m_backbuffer[pos], n)\<close>: the engine writes \<open>n\<close> samples into the array
  from index \<open>pos\<close> on. Writing past the end of the array is undefined behaviour in C++
  and the error \<open>BufferOverrun\<close> here.\<close>

definition chip_generate ::
  "output_data list \<Rightarrow> nat \<Rightarrow> nat \<Rightarrow> ym2151 \<Rightarrow> error + (output_data list \<times> ym2151)" where
  "chip_generate buf pos n c =
     (if length buf < pos + n then Inl BufferOverrun
      else Inr (take pos buf @ [chip_generated c ..< chip_generated c + n] @ drop (pos + n) buf,
                c\<lparr>chip_generated := chip_generated c + n,
                  chip_calls := chip_calls c @ [Generate n]\<rparr>))"

subsection \<open>The interface object\<close>

datatype message =
    ErrorNotEnoughTimers
  | WarnWriteWhileBusy "8 word" "8 word"
  | WarnChannelsDiffer

record ym2151_interface =
  m_chip :: ym2151
  m_chip_sample_rate :: "32 word"
  m_backbuffer :: "output_data list"
  m_backbuffer_size :: "32 word"
  m_backbuffer_used :: "32 word"
  m_write_queue :: "(8 word \<times> 8 word) list"
  m_timers :: "nat \<Rightarrow> 32 word"
  m_busy_timer :: "32 word"
  m_irq_status :: bool
  m_resampler :: "nat \<Rightarrow> (32 word \<times> 32 word \<times> 32 word) option"
  m_previous_sample_rate :: "32 word"
  m_backbuffer_resampled :: "nat \<Rightarrow> 16 word list"
  printed :: "message list"
  pregenerate_calls :: "32 word list"

text \<open>
  \<open>printed\<close> is the text sent to standard output by \<^verbatim>\<open>printf\<close>. \<open>pregenerate_calls\<close> is not a
  member of the class: it records the argument of every call of \<^verbatim>\<open>pregenerate(uint32_t)\<close>, in
  order, so that what a caller asked production for can be read off the state. The members
  \<^verbatim>\<open>m_generation_time\<close>, \<^verbatim>\<open>m_previous_samples\<close> and \<^verbatim>\<open>m_resampling_input_buffer\<close> are not
  read or written by the compiled variant and are left out.

  The constructor (lines 28-39). The native sample rate \<^verbatim>\<open>m_chip.sample_rate(YM_CLOCK_RATE)\<close>
  and the array length \<^verbatim>\<open>YM_SAMPLE_RATE\<close> come from headers that are not in the sources;
  they are the parameter \<open>rate\<close>. The object has static storage, so the array starts zeroed.
\<close>

definition new_chip :: ym2151 where
  "new_chip = \<lparr>chip_address = 0, chip_regdata = (\<lambda>_. 0), chip_generated = 0, chip_calls = []\<rparr>"

definition new_ym2151_interface :: "32 word \<Rightarrow> ym2151_interface" where
  "new_ym2151_interface rate =
     \<lparr>m_chip = new_chip,
      m_chip_sample_rate = rate,
      m_backbuffer = replicate (unat rate) 0,
      m_backbuffer_size = rate,
      m_backbuffer_used = 0,
      m_write_queue = [],
      m_timers = (\<lambda>_. 0),
      m_busy_timer = 0,
      m_irq_status = False,
      m_resampler = (\<lambda>_. None),
      m_previous_sample_rate = 0,
      m_backbuffer_resampled = (\<lambda>_. []),
      printed = [],
      pregenerate_calls = []\<rparr>"

subsection \<open>Busy and timer clock model (lines 71-148)\<close>

definition ymfm_set_timer :: "nat \<Rightarrow> 32 word \<Rightarrow> ym2151_interface \<Rightarrow> ym2151_interface" where
  "ymfm_set_timer tnum duration_in_clocks s =
     (if tnum \<ge> 2 then s\<lparr>printed := printed s @ [ErrorNotEnoughTimers]\<rparr>
      else s\<lparr>m_timers := (m_timers s)(tnum := duration_in_clocks)\<rparr>)"

definition ymfm_set_busy_end :: "32 word \<Rightarrow> ym2151_interface \<Rightarrow> ym2151_interface" where
  "ymfm_set_busy_end clocks s = s\<lparr>m_busy_timer := clocks\<rparr>"

definition ymfm_is_busy :: "ym2151_interface \<Rightarrow> bool" where
  "ymfm_is_busy s = (0 < sint (m_busy_timer s))"

definition ymfm_update_irq :: "bool \<Rightarrow> ym2151_interface \<Rightarrow> ym2151_interface" where
  "ymfm_update_irq asserted s = s\<lparr>m_irq_status := asserted\<rparr>"

text \<open>\<^verbatim>\<open>std::max\<close> on two \<^verbatim>\<open>int\<close> values.\<close>

definition max_int32 :: "32 word \<Rightarrow> 32 word \<Rightarrow> 32 word" where
  "max_int32 a b = (if sint a < sint b then b else a)"

text \<open>The body of the loop \<^verbatim>\<open>for (int i = 0; i < 2; ++i)\<close> of both \<^verbatim>\<open>update_clocks\<close> overloads,
  for a step of \<open>ticks\<close> chip clocks.\<close>

definition update_timer :: "32 word \<Rightarrow> nat \<Rightarrow> ym2151_interface \<Rightarrow> ym2151_interface" where
  "update_timer ticks i s =
     (if 0 < sint (m_timers s i) then
        (let s1 = s\<lparr>m_timers := (m_timers s)(i := max_int32 0 (m_timers s i - ticks))\<rparr>
         in if sint (m_timers s1 i) \<le> 0
            then s1\<lparr>m_chip := engine_timer_expired i (m_chip s1)\<rparr>
            else s1)
      else s)"

text \<open>\<^verbatim>\<open>update_clocks()\<close>, lines 124-135.\<close>

definition update_clocks :: "ym2151_interface \<Rightarrow> ym2151_interface" where
  "update_clocks s =
     fold (update_timer 64) [0, 1] (s\<lparr>m_busy_timer := max_int32 0 (m_busy_timer s - 64)\<rparr>)"

text \<open>\<^verbatim>\<open>update_clocks(int cycles)\<close>, lines 137-148.\<close>

definition update_clocks_cycles :: "32 word \<Rightarrow> ym2151_interface \<Rightarrow> ym2151_interface" where
  "update_clocks_cycles cycles s =
     fold (update_timer (64 * cycles)) [0, 1]
       (s\<lparr>m_busy_timer := max_int32 0 (m_busy_timer s - 64 * cycles)\<rparr>)"

text \<open>How often the interface has called \<^verbatim>\<open>engine_timer_expired(i)\<close> so far.\<close>

definition timer_expirations :: "nat \<Rightarrow> ym2151_interface \<Rightarrow> nat" where
  "timer_expirations i s = count_list (chip_calls (m_chip s)) (EngineTimerExpired i)"

text \<open>A run of \<^verbatim>\<open>update_clocks(cycles)\<close> calls, one per list element.\<close>

fun advance :: "32 word list \<Rightarrow> ym2151_interface \<Rightarrow> ym2151_interface" where
  "advance [] s = s"
| "advance (c # cs) s = advance cs (update_clocks_cycles c s)"

subsection \<open>Production of native-rate samples (lines 150-191)\<close>

text \<open>\<^verbatim>\<open>pregenerate()\<close>, lines 150-163: one sample; the front of the write queue is applied
  and stays in the queue. Nothing in the file calls this overload.\<close>

definition pregenerate :: "ym2151_interface \<Rightarrow> error + ym2151_interface" where
  "pregenerate s =
     (if m_backbuffer_used s < m_backbuffer_size s then
        (let s1 = (if m_write_queue s \<noteq> [] then
                     (let (addr, val) = hd (m_write_queue s)
                      in s\<lparr>m_chip := write_data val False (write_address addr (m_chip s))\<rparr>)
                   else s)
         in case chip_generate (m_backbuffer s1) (unat (m_backbuffer_used s1)) 1 (m_chip s1) of
              Inl e \<Rightarrow> Inl e
            | Inr (buf, chip) \<Rightarrow>
                (let s2 = update_clocks (s1\<lparr>m_backbuffer := buf, m_chip := chip\<rparr>)
                 in Inr (s2\<lparr>m_backbuffer_used := m_backbuffer_used s2 + 1\<rparr>)))
      else Inr s)"

text \<open>The \<^verbatim>\<open>while\<close> loop of \<^verbatim>\<open>pregenerate(uint32_t samples)\<close>, lines 172-183. It returns the
  samples still to produce and the state.\<close>

function pregenerate_loop ::
  "32 word \<Rightarrow> ym2151_interface \<Rightarrow> error + (32 word \<times> ym2151_interface)" where
  "pregenerate_loop samples s =
     (if samples > 0 \<and> m_write_queue s \<noteq> [] then
        (let (addr, val) = hd (m_write_queue s);
             s1 = s\<lparr>m_chip := write_data val False (write_address addr (m_chip s))\<rparr>
         in case chip_generate (m_backbuffer s1) (unat (m_backbuffer_used s1)) 1 (m_chip s1) of
              Inl e \<Rightarrow> Inl e
            | Inr (buf, chip) \<Rightarrow>
                (let s2 = update_clocks (s1\<lparr>m_backbuffer := buf, m_chip := chip\<rparr>);
                     s3 = s2\<lparr>m_backbuffer_used := m_backbuffer_used s2 + 1\<rparr>;
                     s4 = s3\<lparr>m_write_queue := tl (m_write_queue s3)\<rparr>
                 in pregenerate_loop (samples - 1) s4))
      else Inr (samples, s))"
  by pat_completeness auto
termination
  apply (relation "measure (\<lambda>(n, s). length (m_write_queue s))")
   apply simp
  apply (simp (no_asm_simp) add: update_clocks_def update_timer_def Let_def)
  done

text \<open>\<^verbatim>\<open>pregenerate(uint32_t samples)\<close>, lines 166-191. The call is recorded with its argument
  first. The argument of \<^verbatim>\<open>update_clocks(int)\<close> is the \<^verbatim>\<open>uint32_t\<close> count converted to \<^verbatim>\<open>int\<close>, the
  same 32 bits.\<close>

definition pregenerate_samples :: "32 word \<Rightarrow> ym2151_interface \<Rightarrow> error + ym2151_interface" where
  "pregenerate_samples samples0 s0 =
     (let s = s0\<lparr>pregenerate_calls := pregenerate_calls s0 @ [samples0]\<rparr>;
          samples = (if m_backbuffer_used s + samples0 > m_backbuffer_size s
                     then m_backbuffer_size s - m_backbuffer_used s else samples0)
      in case pregenerate_loop samples s of
           Inl e \<Rightarrow> Inl e
         | Inr (samples1, s1) \<Rightarrow>
             (if samples1 > 0 then
                (case chip_generate (m_backbuffer s1) (unat (m_backbuffer_used s1)) (unat samples1) (m_chip s1) of
                   Inl e \<Rightarrow> Inl e
                 | Inr (buf, chip) \<Rightarrow>
                     (let s2 = update_clocks_cycles samples1 (s1\<lparr>m_backbuffer := buf, m_chip := chip\<rparr>)
                      in Inr (s2\<lparr>m_backbuffer_used := m_backbuffer_used s2 + samples1\<rparr>)))
              else Inr s1))"

subsection \<open>Rendering at the host rate (lines 193-429, the compiled variant)\<close>

text \<open>Lines 277-282: both resamplers are (re)built when missing or when the rate changed.\<close>

definition init_resamplers :: "32 word \<Rightarrow> ym2151_interface \<Rightarrow> ym2151_interface" where
  "init_resamplers sample_rate s =
     (fold (\<lambda>i s'. if m_resampler s' i = None \<or> sample_rate \<noteq> m_previous_sample_rate s'
                    then s'\<lparr>m_resampler := (m_resampler s')(i \<mapsto>
                           (m_chip_sample_rate s', sample_rate, m_chip_sample_rate s'))\<rparr>
                    else s') [0, 1] s)
       \<lparr>m_previous_sample_rate := sample_rate\<rparr>"

text \<open>Lines 297-302 for one channel: leftover resampled samples are moved to every second
  slot of the caller's buffer, from \<open>pos\<close> on, while the channel has fewer than \<open>samples\<close>
  of them. \<^verbatim>\<open>samples_done[i] < samples\<close> compares an \<^verbatim>\<open>int32_t\<close> with a \<^verbatim>\<open>uint32_t\<close>, which is
  an unsigned comparison. The result is the rest of the queue, \<^verbatim>\<open>samples_done[i]\<close> and the
  caller's buffer.\<close>

fun use_leftover ::
  "16 word list \<Rightarrow> 32 word \<Rightarrow> 32 word \<Rightarrow> nat \<Rightarrow> 16 word list
     \<Rightarrow> error + (16 word list \<times> 32 word \<times> 16 word list)" where
  "use_leftover [] samples_done samples pos buffers = Inr ([], samples_done, buffers)"
| "use_leftover (x # q) samples_done samples pos buffers =
     (if samples_done < samples then
        (if pos < length buffers
         then use_leftover q (samples_done + 1) samples (pos + 2) (buffers[pos := x])
         else Inl BufferOverrun)
      else Inr (x # q, samples_done, buffers))"

text \<open>Lines 418-423, shared by the three variants: drop \<open>samples_used\<close> samples from the
  head of the backbuffer. \<^verbatim>\<open>memmove\<close> copies the samples from index \<open>samples_used\<close> up to
  \<^verbatim>\<open>m_backbuffer_used\<close> to the front of the array.\<close>

definition remove_used :: "32 word \<Rightarrow> 32 word \<Rightarrow> ym2151_interface \<Rightarrow> error + ym2151_interface" where
  "remove_used samples_used samples s =
     (if samples_used < m_backbuffer_used s then
        (if length (m_backbuffer s) < unat (m_backbuffer_used s) then Inl BufferOverrun
         else (let n = unat (m_backbuffer_used s) - unat samples_used
               in Inr (s\<lparr>m_backbuffer := take n (drop (unat samples_used) (m_backbuffer s))
                                           @ drop n (m_backbuffer s),
                         m_backbuffer_used := m_backbuffer_used s - samples\<rparr>)))
      else Inr (s\<lparr>m_backbuffer_used := 0\<rparr>))"

text \<open>\<^verbatim>\<open>generate\<close> as compiled. The loop at lines 321-346 has an empty body (all of it is
  commented out), so no backbuffer sample is read, nothing is resampled and nothing is
  pushed on \<^verbatim>\<open>m_backbuffer_resampled\<close>. Line 415 sets \<^verbatim>\<open>samples_used = m_backbuffer_used\<close>.
  The result is the caller's buffer and the state.\<close>

definition generate ::
  "16 word list \<Rightarrow> 32 word \<Rightarrow> 32 word \<Rightarrow> ym2151_interface
     \<Rightarrow> error + (16 word list \<times> ym2151_interface)" where
  "generate buffers samples sample_rate s0 =
     (let s1 = init_resamplers sample_rate s0
      in case use_leftover (m_backbuffer_resampled s1 0) 0 samples 0 buffers of
           Inl e \<Rightarrow> Inl e
         | Inr (q0, done0, buffers1) \<Rightarrow>
      (case use_leftover (m_backbuffer_resampled s1 1) 0 samples 1 buffers1 of
           Inl e \<Rightarrow> Inl e
         | Inr (q1, done1, buffers2) \<Rightarrow>
      (let s2 = s1\<lparr>m_backbuffer_resampled := (m_backbuffer_resampled s1)(0 := q0, 1 := q1)\<rparr>;
           s3 = (if done0 \<noteq> done1 then s2\<lparr>printed := printed s2 @ [WarnChannelsDiffer]\<rparr> else s2);
           output_samples_needed = samples - done0
       in if sample_rate = 0 then Inl DivisionByZero
          else
            (let orig_samples_needed =
                   1 + (output_samples_needed * m_chip_sample_rate s3) div sample_rate
             in case (if m_backbuffer_used s3 < orig_samples_needed
                      then pregenerate_samples (orig_samples_needed - m_backbuffer_used s3) s3
                      else Inr s3) of
                  Inl e \<Rightarrow> Inl e
                | Inr s4 \<Rightarrow>
                    (let samples_used = m_backbuffer_used s4
                     in case remove_used samples_used samples s4 of
                          Inl e \<Rightarrow> Inl e
                        | Inr s5 \<Rightarrow> Inr (buffers2, s5))))))"

definition clear_backbuffer :: "ym2151_interface \<Rightarrow> ym2151_interface" where
  "clear_backbuffer s = s\<lparr>m_backbuffer_used := 0\<rparr>"

subsection \<open>Register writes and the debug path (lines 431-460)\<close>

text \<open>\<^verbatim>\<open>ym2151_interface::write\<close> (\<open>write\<close> is a keyword of Isabelle). It reads the global
  strict-timing flag through \<^verbatim>\<open>YM_is_strict()\<close>; here the flag is the first argument.\<close>

definition interface_write :: "bool \<Rightarrow> 8 word \<Rightarrow> 8 word \<Rightarrow> ym2151_interface \<Rightarrow> ym2151_interface" where
  "interface_write strict addr val s =
     (if ymfm_is_busy s then
        (if strict then s\<lparr>printed := printed s @ [WarnWriteWhileBusy addr val]\<rparr>
         else s\<lparr>m_write_queue := m_write_queue s @ [(addr, val)]\<rparr>)
      else s\<lparr>m_chip := write_data val False (write_address addr (m_chip s))\<rparr>)"

definition debug_write :: "8 word \<Rightarrow> 8 word \<Rightarrow> ym2151_interface \<Rightarrow> ym2151_interface" where
  "debug_write addr val s = s\<lparr>m_chip := write_data val True (write_address addr (m_chip s))\<rparr>"

definition debug_read :: "ym2151_interface \<Rightarrow> 8 word \<Rightarrow> 8 word" where
  "debug_read s addr = get_register_data (m_chip s) addr"

definition get_sample_rate :: "ym2151_interface \<Rightarrow> 32 word" where
  "get_sample_rate s = m_chip_sample_rate s"

subsection \<open>The file-level state and the public functions (lines 553-648)\<close>

record ym_state =
  Ym_interface :: ym2151_interface
  Last_address :: "8 word"
  Last_data :: "8 word"
  Ym_registers :: "8 word \<Rightarrow> 8 word"
  Ym_irq_enabled :: bool
  Ym_strict_busy :: bool
  clocks_elapsed :: "32 word"

definition new_ym_state :: "32 word \<Rightarrow> ym_state" where
  "new_ym_state rate =
     \<lparr>Ym_interface = new_ym2151_interface rate,
      Last_address = 0,
      Last_data = 0,
      Ym_registers = (\<lambda>_. 0),
      Ym_irq_enabled = False,
      Ym_strict_busy = False,
      clocks_elapsed = 0\<rparr>"

definition YM_is_strict :: "ym_state \<Rightarrow> bool" where
  "YM_is_strict g = Ym_strict_busy g"

definition YM_set_strict_busy :: "bool \<Rightarrow> ym_state \<Rightarrow> ym_state" where
  "YM_set_strict_busy enable g = g\<lparr>Ym_strict_busy := enable\<rparr>"

text \<open>\<^verbatim>\<open>YM_prerender\<close>, lines 560-572. \<open>clocks_per_sample\<close> and \<open>samples_to_render\<close> are its two
  local constants, the second for \<^verbatim>\<open>clocks_elapsed\<close> already increased by the call's clocks.
  A division by zero (a native rate of 0 or above 8000000) is an error.\<close>

definition clocks_per_sample :: "ym_state \<Rightarrow> 32 word" where
  "clocks_per_sample g = 8000000 div get_sample_rate (Ym_interface g)"

definition samples_to_render :: "ym_state \<Rightarrow> 32 word" where
  "samples_to_render g = clocks_elapsed g div clocks_per_sample g"

definition YM_prerender :: "32 word \<Rightarrow> ym_state \<Rightarrow> error + ym_state" where
  "YM_prerender clocks g0 =
     (let g = g0\<lparr>clocks_elapsed := clocks_elapsed g0 + clocks\<rparr>
      in if get_sample_rate (Ym_interface g) = 0 \<or> clocks_per_sample g = 0 then Inl DivisionByZero
         else if samples_to_render g > 0 then
           (case pregenerate_samples (samples_to_render g) (Ym_interface g) of
              Inl e \<Rightarrow> Inl e
            | Inr i \<Rightarrow>
                Inr (g\<lparr>Ym_interface := i,
                       clocks_elapsed := clocks_elapsed g - samples_to_render g * clocks_per_sample g\<rparr>))
         else Inr g)"

definition YM_render :: "16 word list \<Rightarrow> 32 word \<Rightarrow> 32 word \<Rightarrow> ym_state \<Rightarrow> error + (16 word list \<times> ym_state)" where
  "YM_render buffer samples sample_rate g =
     (case generate buffer samples sample_rate (Ym_interface g) of
        Inl e \<Rightarrow> Inl e
      | Inr (buffer1, i) \<Rightarrow> Inr (buffer1, g\<lparr>Ym_interface := i\<rparr>))"

definition YM_clear_backbuffer :: "ym_state \<Rightarrow> ym_state" where
  "YM_clear_backbuffer g = g\<lparr>Ym_interface := clear_backbuffer (Ym_interface g)\<rparr>"

definition YM_write :: "8 word \<Rightarrow> 8 word \<Rightarrow> ym_state \<Rightarrow> ym_state" where
  "YM_write offset val g =
     (if offset AND 1 \<noteq> 0 then
        (let g1 = g\<lparr>Last_data := val\<rparr>;
             g2 = g1\<lparr>Ym_registers := (Ym_registers g1)(Last_address g1 := Last_data g1)\<rparr>
         in g2\<lparr>Ym_interface := interface_write (YM_is_strict g2) (Last_address g2) (Last_data g2) (Ym_interface g2)\<rparr>)
      else g\<lparr>Last_address := val\<rparr>)"

definition YM_debug_write :: "8 word \<Rightarrow> 8 word \<Rightarrow> ym_state \<Rightarrow> ym_state" where
  "YM_debug_write addr val g =
     (let g1 = g\<lparr>Ym_registers := (Ym_registers g)(addr := val)\<rparr>
      in g1\<lparr>Ym_interface := debug_write addr val (Ym_interface g1)\<rparr>)"

definition YM_debug_read :: "ym_state \<Rightarrow> 8 word \<Rightarrow> 8 word" where
  "YM_debug_read g addr = Ym_registers g addr"

subsection \<open>Observations used to state the properties\<close>

text \<open>The calls the interface made to the engine, without the timer notifications: the
  register writes and the sample generation, in the order they happened.\<close>

definition production_calls :: "chip_call list \<Rightarrow> chip_call list" where
  "production_calls cs = filter (\<lambda>c. case c of EngineTimerExpired _ \<Rightarrow> False | _ \<Rightarrow> True) cs"

text \<open>What draining the queue entries \<open>ws\<close> looks like to the engine: for each entry, in
  order, the address, then the data, then one sample.\<close>

definition drain_calls :: "(8 word \<times> 8 word) list \<Rightarrow> chip_call list" where
  "drain_calls ws = concat (map (\<lambda>(addr, val). [WriteAddress addr, WriteData val False, Generate 1]) ws)"

text \<open>A run of \<^verbatim>\<open>YM_prerender\<close> calls, one per list element.\<close>

fun prerender_run :: "32 word list \<Rightarrow> ym_state \<Rightarrow> error + ym_state" where
  "prerender_run [] g = Inr g"
| "prerender_run (c # cs) g =
     (case YM_prerender c g of Inl e \<Rightarrow> Inl e | Inr g1 \<Rightarrow> prerender_run cs g1)"

text \<open>The number of native-rate samples that production has been asked for so far: the
  sum of the arguments of the recorded calls of \<^verbatim>\<open>pregenerate(uint32_t)\<close>.\<close>

definition samples_requested :: "ym2151_interface \<Rightarrow> nat" where
  "samples_requested s = sum_list (map unat (pregenerate_calls s))"

text \<open>The operations a client or the engine can perform on the file-level state.\<close>

datatype ym_op =
    Port_write "8 word" "8 word"
  | Debug_write "8 word" "8 word"
  | Prerender "32 word"
  | Render "16 word list" "32 word" "32 word"
  | Clear_backbuffer
  | Set_strict bool
  | Set_busy_end "32 word"
  | Set_timer nat "32 word"

fun step :: "ym_op \<Rightarrow> ym_state \<Rightarrow> error + ym_state" where
  "step (Port_write offset val) g = Inr (YM_write offset val g)"
| "step (Debug_write addr val) g = Inr (YM_debug_write addr val g)"
| "step (Prerender clocks) g = YM_prerender clocks g"
| "step (Render buffer samples sample_rate) g =
     (case YM_render buffer samples sample_rate g of Inl e \<Rightarrow> Inl e | Inr (b, g1) \<Rightarrow> Inr g1)"
| "step Clear_backbuffer g = Inr (YM_clear_backbuffer g)"
| "step (Set_strict enable) g = Inr (YM_set_strict_busy enable g)"
| "step (Set_busy_end clocks) g = Inr (g\<lparr>Ym_interface := ymfm_set_busy_end clocks (Ym_interface g)\<rparr>)"
| "step (Set_timer tnum duration) g = Inr (g\<lparr>Ym_interface := ymfm_set_timer tnum duration (Ym_interface g)\<rparr>)"

fun run :: "ym_op list \<Rightarrow> ym_state \<Rightarrow> error + ym_state" where
  "run [] g = Inr g"
| "run (x # xs) g = (case step x g of Inl e \<Rightarrow> Inl e | Inr g1 \<Rightarrow> run xs g1)"

text \<open>The register writes a client submitted, as (address, value) pairs in the order of
  submission: a write to the data port goes to the address latched by the last write to
  the address port (\<open>la\<close> at the start), a debug write names its address.\<close>

fun submitted_writes :: "8 word \<Rightarrow> ym_op list \<Rightarrow> (8 word \<times> 8 word) list" where
  "submitted_writes la [] = []"
| "submitted_writes la (Port_write offset val # xs) =
     (if offset AND 1 \<noteq> 0 then (la, val) # submitted_writes la xs else submitted_writes val xs)"
| "submitted_writes la (Debug_write addr val # xs) = (addr, val) # submitted_writes la xs"
| "submitted_writes la (x # xs) = submitted_writes la xs"

text \<open>The value of the most recent of the writes \<open>ws\<close> to address \<open>a\<close>, or \<open>old\<close> when no
  write went there.\<close>

definition most_recent :: "(8 word \<times> 8 word) list \<Rightarrow> 8 word \<Rightarrow> 8 word \<Rightarrow> 8 word" where
  "most_recent ws a old = (case map_of (rev ws) a of None \<Rightarrow> old | Some v \<Rightarrow> v)"

text \<open>The states the operations keep the program in: the backbuffer count within the
  capacity, the capacity within the array and at most \<open>2^31\<close>, a native rate between 1 and
  4000000, fewer clocks carried over than make a sample, and no leftover resampled
  samples. The initial state is one of them.\<close>

definition well_formed :: "ym_state \<Rightarrow> bool" where
  "well_formed g =
     (let i = Ym_interface g
      in m_backbuffer_used i \<le> m_backbuffer_size i \<and>
         unat (m_backbuffer_size i) \<le> length (m_backbuffer i) \<and>
         m_backbuffer_size i \<le> 0x80000000 \<and>
         0 < get_sample_rate i \<and> get_sample_rate i \<le> 4000000 \<and>
         clocks_elapsed g < clocks_per_sample g \<and>
         m_backbuffer_resampled i 0 = [] \<and> m_backbuffer_resampled i 1 = [])"

text \<open>The arguments with which an operation has defined behaviour in such a state: a
  non-zero output rate for rendering, and a clock count that does not wrap the 32-bit
  accumulator.\<close>

fun sane_op :: "ym_op \<Rightarrow> bool" where
  "sane_op (Prerender clocks) = (unat clocks + 8000000 \<le> 2 ^ 32)"
| "sane_op (Render buffer samples sample_rate) = (sample_rate \<noteq> 0)"
| "sane_op x = True"


section \<open>Verification\<close>

subsection \<open>The clock model\<close>

lemma sint_max_int32:
  "sint (max_int32 0 x) = max 0 (sint x)" "(sint (max_int32 0 x) \<le> 0) = (sint x \<le> 0)"
  by (simp_all add: max_int32_def)

lemma update_timer_timers:
  "m_timers (update_timer t i s) j =
     (if j = i \<and> 0 < sint (m_timers s i) then max_int32 0 (m_timers s i - t) else m_timers s j)"
  by (simp add: update_timer_def Let_def)

lemma timer_expirations_busy:
  "timer_expirations i (s\<lparr>m_busy_timer := x\<rparr>) = timer_expirations i s"
  by (simp add: timer_expirations_def)

lemma update_timer_expirations:
  "timer_expirations j (update_timer t i s) =
     timer_expirations j s +
       (if j = i \<and> 0 < sint (m_timers s i) \<and> sint (m_timers s i - t) \<le> 0 then 1 else 0)"
  by (auto simp add: update_timer_def Let_def timer_expirations_def engine_timer_expired_def
      sint_max_int32)

lemma update_clocks_cycles_timers:
  assumes "i < 2"
  shows "m_timers (update_clocks_cycles c s) i =
     (if 0 < sint (m_timers s i) then max_int32 0 (m_timers s i - 64 * c) else m_timers s i)"
proof -
  from assms have "i = 0 \<or> i = 1" by auto
  then show ?thesis
    by (auto simp add: update_clocks_cycles_def update_timer_timers)
qed

lemma update_clocks_cycles_expirations:
  assumes "i < 2"
  shows "timer_expirations i (update_clocks_cycles c s) =
     timer_expirations i s +
       (if 0 < sint (m_timers s i) \<and> sint (m_timers s i - 64 * c) \<le> 0 then 1 else 0)"
proof -
  from assms have "i = 0 \<or> i = 1" by auto
  then show ?thesis
    by (auto simp add: update_clocks_cycles_def update_timer_timers update_timer_expirations
        timer_expirations_busy)
qed

lemma update_clocks_eq: "update_clocks s = update_clocks_cycles 1 s"
  by (simp add: update_clocks_def update_clocks_cycles_def)

text \<open>Where \<open>64 * cycles\<close> fits in an \<^verbatim>\<open>int\<close> and the counter is positive, the subtraction
  does not overflow.\<close>

lemma signed_take_bit_ticks:
  fixes k :: int
  assumes "0 \<le> k" and "k < 2 ^ 25"
  shows "signed_take_bit 31 k = k" and "signed_take_bit 31 (64 * k) = 64 * k"
  using assms by (simp_all add: signed_take_bit_int_eq_self)

lemma signed_take_bit_minus_ticks:
  fixes x k :: int
  assumes "0 < x" and "x < 2 ^ 31" and "0 \<le> k" and "k < 2 ^ 25"
  shows "signed_take_bit 31 (x - 64 * k) = x - 64 * k"
  using assms by (simp add: signed_take_bit_int_eq_self)

lemma sint_ticks:
  assumes "uint c < 2 ^ 25"
  shows "sint (64 * c :: 32 word) = 64 * uint c"
proof -
  note r = signed_take_bit_ticks [OF uint_nonnegative assms]
  have c: "sint c = uint c" by (simp add: sint_uint r(1))
  have "sint (64 * c) = signed_take_bit 31 (sint (64 :: 32 word) * sint c)"
    by (simp add: sint_word_ariths)
  also have "\<dots> = signed_take_bit 31 (64 * uint c)" by (simp add: c)
  finally show ?thesis using r(2) by simp
qed

lemma sint_minus_ticks:
  assumes "0 < sint t" and "uint c < 2 ^ 25"
  shows "sint (t - 64 * c :: 32 word) = sint t - 64 * uint c"
proof -
  have t31: "sint t < 2 ^ 31" using sint_lt [of t] by simp
  note r = signed_take_bit_minus_ticks [OF assms(1) t31 uint_nonnegative assms(2)]
  have "sint (t - 64 * c) = signed_take_bit 31 (sint t - sint (64 * c))"
    by (simp add: sint_word_ariths)
  also have "\<dots> = signed_take_bit 31 (sint t - 64 * uint c)"
    by (simp add: sint_ticks [OF assms(2)])
  finally show ?thesis using r by simp
qed

lemma update_clocks_cycles_step:
  assumes "i < 2" and "uint c < 2 ^ 25"
  shows "sint (m_timers (update_clocks_cycles c s) i) =
           (if 0 < sint (m_timers s i) then max 0 (sint (m_timers s i) - 64 * uint c)
            else sint (m_timers s i))"
    and "timer_expirations i (update_clocks_cycles c s) =
           timer_expirations i s +
             (if 0 < sint (m_timers s i) \<and> sint (m_timers s i) \<le> 64 * uint c then 1 else 0)"
  using assms
  by (auto simp add: update_clocks_cycles_timers update_clocks_cycles_expirations
      sint_max_int32 sint_minus_ticks)

lemma advance_idle:
  "i < 2 \<Longrightarrow> sint (m_timers s i) \<le> 0 \<Longrightarrow>
     m_timers (advance cs s) i = m_timers s i \<and>
     timer_expirations i (advance cs s) = timer_expirations i s"
  by (induction cs arbitrary: s)
     (simp_all add: update_clocks_cycles_timers update_clocks_cycles_expirations)

lemma advance_armed:
  "i < 2 \<Longrightarrow> 0 < sint (m_timers s i) \<Longrightarrow> \<forall>c \<in> set cs. uint c < 2 ^ 25 \<Longrightarrow>
     sint (m_timers (advance cs s) i) = max 0 (sint (m_timers s i) - 64 * sum_list (map uint cs)) \<and>
     timer_expirations i (advance cs s) =
       timer_expirations i s + (if sint (m_timers s i) \<le> 64 * sum_list (map uint cs) then 1 else 0)"
proof (induction cs arbitrary: s)
  case Nil
  then show ?case by simp
next
  case (Cons c cs)
  let ?s1 = "update_clocks_cycles c s"
  let ?t = "sint (m_timers s i)"
  have c: "uint c < 2 ^ 25" using Cons.prems(3) by simp
  note step = update_clocks_cycles_step [OF Cons.prems(1) c, of s]
  have nonneg: "0 \<le> sum_list (map uint cs)" by (rule sum_list_nonneg) auto
  show ?case
  proof (cases "?t \<le> 64 * uint c")
    case True
    with Cons.prems step have t0: "sint (m_timers ?s1 i) = 0"
      and e1: "timer_expirations i ?s1 = timer_expirations i s + 1" by simp_all
    have le: "?t \<le> 64 * (uint c + sum_list (map uint cs))" using True nonneg by simp
    from advance_idle [of i ?s1 cs] Cons.prems(1) t0
    have "m_timers (advance cs ?s1) i = m_timers ?s1 i"
      and "timer_expirations i (advance cs ?s1) = timer_expirations i ?s1" by simp_all
    with t0 e1 le show ?thesis by simp
  next
    case False
    with Cons.prems step have t1: "sint (m_timers ?s1 i) = ?t - 64 * uint c"
      and e1: "timer_expirations i ?s1 = timer_expirations i s" by simp_all
    have pos: "0 < sint (m_timers ?s1 i)" using t1 False by simp
    from Cons.IH [OF Cons.prems(1) pos] Cons.prems(3)
    have "sint (m_timers (advance cs ?s1) i) =
        max 0 (sint (m_timers ?s1 i) - 64 * sum_list (map uint cs))"
      and "timer_expirations i (advance cs ?s1) =
        timer_expirations i ?s1 + (if sint (m_timers ?s1 i) \<le> 64 * sum_list (map uint cs) then 1 else 0)"
      by simp_all
    with t1 e1 show ?thesis by (simp add: algebra_simps)
  qed
qed

lemma ymfm_set_timer_armed:
  "i < 2 \<Longrightarrow> m_timers (ymfm_set_timer i d s) i = d \<and>
     timer_expirations i (ymfm_set_timer i d s) = timer_expirations i s"
  by (simp add: ymfm_set_timer_def timer_expirations_def)

text \<open>
  Claim C3, as amended. For a timer \<open>i\<close> in \<open>{0, 1}\<close>, with the counters read as signed
  32-bit values and every cycle count \<open>c\<close> such that \<open>64 * c\<close> fits in an \<^verbatim>\<open>int\<close>
  (\<open>0 \<le> c < 2^25\<close>):
  \<^item> one call \<^verbatim>\<open>update_clocks(c)\<close> takes \<open>64 * c\<close> clocks off an armed counter and calls
    \<^verbatim>\<open>engine_timer_expired(i)\<close> once if the counter was positive and reaches 0 in this
    call, and not at all otherwise; after the call that fires, the counter is 0;
  \<^item> a counter that is 0 or negative stays as it is and never fires, whatever calls
    follow, until \<^verbatim>\<open>ymfm_set_timer\<close> arms it again;
  \<^item> after arming with \<open>d > 0\<close> clocks, a run of calls with cycle counts \<open>cs\<close> has fired
    exactly once if \<open>64 * sum cs\<close> has reached \<open>d\<close> and not at all before, and the counter
    is \<open>d - 64 * sum cs\<close> clamped at 0.
  The step of a call is 64 clocks per cycle, not one clock per unit of its argument.
\<close>

theorem timer_fires_once_per_arming:
  assumes "i < 2" and "0 < sint d" and "\<forall>c \<in> set cs. uint c < 2 ^ 25"
  shows "(uint c < 2 ^ 25 \<longrightarrow>
            timer_expirations i (update_clocks_cycles c s) =
              timer_expirations i s +
                (if 0 < sint (m_timers s i) \<and> sint (m_timers s i) \<le> 64 * uint c then 1 else 0)) \<and>
         (uint c < 2 ^ 25 \<and> 0 < sint (m_timers s i) \<and> sint (m_timers s i) \<le> 64 * uint c \<longrightarrow>
            m_timers (update_clocks_cycles c s) i = 0) \<and>
         (sint (m_timers s i) \<le> 0 \<longrightarrow>
            m_timers (advance ds s) i = m_timers s i \<and>
            timer_expirations i (advance ds s) = timer_expirations i s) \<and>
         timer_expirations i (advance cs (ymfm_set_timer i d s)) =
            timer_expirations i s + (if sint d \<le> 64 * sum_list (map uint cs) then 1 else 0) \<and>
         sint (m_timers (advance cs (ymfm_set_timer i d s)) i) =
            max 0 (sint d - 64 * sum_list (map uint cs))"
proof -
  have one: "uint c < 2 ^ 25 \<longrightarrow>
      timer_expirations i (update_clocks_cycles c s) =
        timer_expirations i s +
          (if 0 < sint (m_timers s i) \<and> sint (m_timers s i) \<le> 64 * uint c then 1 else 0)"
    using update_clocks_cycles_step(2) [OF assms(1), of c s] by blast
  have zero: "uint c < 2 ^ 25 \<and> 0 < sint (m_timers s i) \<and> sint (m_timers s i) \<le> 64 * uint c \<longrightarrow>
      m_timers (update_clocks_cycles c s) i = 0"
  proof
    assume h: "uint c < 2 ^ 25 \<and> 0 < sint (m_timers s i) \<and> sint (m_timers s i) \<le> 64 * uint c"
    then have "sint (m_timers s i - 64 * c) \<le> 0" by (simp add: sint_minus_ticks)
    then have "max_int32 0 (m_timers s i - 64 * c) = 0" by (simp add: max_int32_def)
    with h show "m_timers (update_clocks_cycles c s) i = 0"
      using assms(1) by (simp add: update_clocks_cycles_timers)
  qed
  have idle: "sint (m_timers s i) \<le> 0 \<longrightarrow>
      m_timers (advance ds s) i = m_timers s i \<and>
      timer_expirations i (advance ds s) = timer_expirations i s"
    using advance_idle [OF assms(1)] by blast
  have armed: "0 < sint (m_timers (ymfm_set_timer i d s) i)"
    using assms(1,2) by (simp add: ymfm_set_timer_armed)
  from advance_armed [OF assms(1) armed assms(3)] ymfm_set_timer_armed [OF assms(1), of d s]
  have run: "timer_expirations i (advance cs (ymfm_set_timer i d s)) =
      timer_expirations i s + (if sint d \<le> 64 * sum_list (map uint cs) then 1 else 0)"
    and left: "sint (m_timers (advance cs (ymfm_set_timer i d s)) i) =
      max 0 (sint d - 64 * sum_list (map uint cs))"
    by simp_all
  from one zero idle run left show ?thesis by blast
qed

text \<open>The scenario of the claim with the counts read as samples: armed for 6400 clocks
  (100 samples), timer 0 has not fired after advancing by 40 and by 40 + 40 samples, and
  has fired exactly once after 40 + 40 + 40.\<close>

theorem timer_fires_once_per_arming_witness:
  "timer_expirations 0 (advance [40] (ymfm_set_timer 0 6400 (new_ym2151_interface 62500))) = 0 \<and>
   timer_expirations 0 (advance [40, 40] (ymfm_set_timer 0 6400 (new_ym2151_interface 62500))) = 0 \<and>
   timer_expirations 0 (advance [40, 40, 40] (ymfm_set_timer 0 6400 (new_ym2151_interface 62500))) = 1 \<and>
   sint (m_timers (advance [40, 40, 40] (ymfm_set_timer 0 6400 (new_ym2151_interface 62500))) 0) = 0"
proof -
  have i: "(0::nat) < 2" and d: "0 < sint (6400 :: 32 word)" by simp_all
  have z: "timer_expirations 0 (new_ym2151_interface 62500) = 0"
    by (simp add: timer_expirations_def new_ym2151_interface_def new_chip_def)
  have c1: "\<forall>c \<in> set [40 :: 32 word]. uint c < 2 ^ 25"
    and c2: "\<forall>c \<in> set [40, 40 :: 32 word]. uint c < 2 ^ 25"
    and c3: "\<forall>c \<in> set [40, 40, 40 :: 32 word]. uint c < 2 ^ 25" by simp_all
  from timer_fires_once_per_arming [OF i d c1, of 0 "new_ym2151_interface 62500" "[]"]
    timer_fires_once_per_arming [OF i d c2, of 0 "new_ym2151_interface 62500" "[]"]
    timer_fires_once_per_arming [OF i d c3, of 0 "new_ym2151_interface 62500" "[]"] z
  show ?thesis by simp
qed

text \<open>The scenario as the claim states it fails: with timer 0 armed for 100 clocks, the
  first call \<^verbatim>\<open>update_clocks(40)\<close> already fires (it takes off 2560 clocks), and with three
  calls of \<^verbatim>\<open>update_clocks()\<close>, 64 clocks each, the second one fires. In neither reading
  does the callback fire on the third advance.\<close>

theorem timer_third_advance_counterexample:
  "timer_expirations 0
     (update_clocks_cycles 40 (ymfm_set_timer 0 100 (new_ym2151_interface 62500))) = 1 \<and>
   timer_expirations 0
     (update_clocks (ymfm_set_timer 0 100 (new_ym2151_interface 62500))) = 0 \<and>
   timer_expirations 0
     (update_clocks (update_clocks (ymfm_set_timer 0 100 (new_ym2151_interface 62500)))) = 1"
  by (simp add: update_clocks_def update_clocks_cycles_def update_timer_def Let_def max_int32_def
      engine_timer_expired_def ymfm_set_timer_def timer_expirations_def
      new_ym2151_interface_def new_chip_def)

text \<open>
  Claim C10. \<^verbatim>\<open>ymfm_set_timer(i, 0)\<close> for \<open>i\<close> in \<open>{0, 1}\<close> stores 0, and no later call of
  \<^verbatim>\<open>update_clocks(c)\<close> or \<^verbatim>\<open>update_clocks()\<close> calls \<^verbatim>\<open>engine_timer_expired(i)\<close>: the counter stays 0
  and the number of expirations stays what it was, whatever the cycle counts are.
\<close>

theorem timer_armed_with_zero_never_fires:
  assumes "i < 2"
  shows "m_timers (ymfm_set_timer i 0 s) i = 0 \<and>
         timer_expirations i (advance cs (ymfm_set_timer i 0 s)) = timer_expirations i s \<and>
         m_timers (advance cs (ymfm_set_timer i 0 s)) i = 0 \<and>
         timer_expirations i (update_clocks (ymfm_set_timer i 0 s)) = timer_expirations i s"
proof -
  have t: "m_timers (ymfm_set_timer i 0 s) i = 0"
    and e: "timer_expirations i (ymfm_set_timer i 0 s) = timer_expirations i s"
    using ymfm_set_timer_armed [OF assms, of 0 s] by simp_all
  from advance_idle [OF assms, of "ymfm_set_timer i 0 s" cs] t e
  have a: "timer_expirations i (advance cs (ymfm_set_timer i 0 s)) = timer_expirations i s"
    and b: "m_timers (advance cs (ymfm_set_timer i 0 s)) i = 0" by simp_all
  have c: "timer_expirations i (update_clocks (ymfm_set_timer i 0 s)) = timer_expirations i s"
    using assms t e by (simp add: update_clocks_eq update_clocks_cycles_expirations)
  from t a b c show ?thesis by blast
qed

theorem timer_armed_with_zero_never_fires_witness:
  "timer_expirations 1
     (advance [1, 1000, 62500] (ymfm_set_timer 1 0 (new_ym2151_interface 62500))) = 0 \<and>
   m_timers (advance [1, 1000, 62500] (ymfm_set_timer 1 0 (new_ym2151_interface 62500))) 1 = 0"
proof -
  have i: "(1::nat) < 2" by simp
  have z: "timer_expirations 1 (new_ym2151_interface 62500) = 0"
    by (simp add: timer_expirations_def new_ym2151_interface_def new_chip_def)
  from timer_armed_with_zero_never_fires [OF i, of "new_ym2151_interface 62500" "[1, 1000, 62500]"] z
  show ?thesis by simp
qed

subsection \<open>Production\<close>

declare pregenerate_loop.simps [simp del]

lemma production_calls_append [simp]:
  "production_calls (xs @ ys) = production_calls xs @ production_calls ys"
  by (simp add: production_calls_def)

lemma production_calls_simps [simp]:
  "production_calls [] = []"
  "production_calls (WriteAddress a # cs) = WriteAddress a # production_calls cs"
  "production_calls (WriteData v d # cs) = WriteData v d # production_calls cs"
  "production_calls (Generate n # cs) = Generate n # production_calls cs"
  "production_calls (EngineTimerExpired i # cs) = production_calls cs"
  by (simp_all add: production_calls_def)

lemma update_timer_frame:
  "m_backbuffer (update_timer t i s) = m_backbuffer s"
  "m_backbuffer_size (update_timer t i s) = m_backbuffer_size s"
  "m_backbuffer_used (update_timer t i s) = m_backbuffer_used s"
  "m_write_queue (update_timer t i s) = m_write_queue s"
  "m_chip_sample_rate (update_timer t i s) = m_chip_sample_rate s"
  "m_resampler (update_timer t i s) = m_resampler s"
  "m_previous_sample_rate (update_timer t i s) = m_previous_sample_rate s"
  "m_backbuffer_resampled (update_timer t i s) = m_backbuffer_resampled s"
  "printed (update_timer t i s) = printed s"
  "pregenerate_calls (update_timer t i s) = pregenerate_calls s"
  "chip_generated (m_chip (update_timer t i s)) = chip_generated (m_chip s)"
  "chip_regdata (m_chip (update_timer t i s)) = chip_regdata (m_chip s)"
  "chip_address (m_chip (update_timer t i s)) = chip_address (m_chip s)"
  "production_calls (chip_calls (m_chip (update_timer t i s))) = production_calls (chip_calls (m_chip s))"
  by (simp_all add: update_timer_def Let_def engine_timer_expired_def)

lemma update_clocks_cycles_frame:
  "m_backbuffer (update_clocks_cycles c s) = m_backbuffer s"
  "m_backbuffer_size (update_clocks_cycles c s) = m_backbuffer_size s"
  "m_backbuffer_used (update_clocks_cycles c s) = m_backbuffer_used s"
  "m_write_queue (update_clocks_cycles c s) = m_write_queue s"
  "m_chip_sample_rate (update_clocks_cycles c s) = m_chip_sample_rate s"
  "m_resampler (update_clocks_cycles c s) = m_resampler s"
  "m_previous_sample_rate (update_clocks_cycles c s) = m_previous_sample_rate s"
  "m_backbuffer_resampled (update_clocks_cycles c s) = m_backbuffer_resampled s"
  "printed (update_clocks_cycles c s) = printed s"
  "pregenerate_calls (update_clocks_cycles c s) = pregenerate_calls s"
  "chip_generated (m_chip (update_clocks_cycles c s)) = chip_generated (m_chip s)"
  "chip_regdata (m_chip (update_clocks_cycles c s)) = chip_regdata (m_chip s)"
  "chip_address (m_chip (update_clocks_cycles c s)) = chip_address (m_chip s)"
  "production_calls (chip_calls (m_chip (update_clocks_cycles c s))) = production_calls (chip_calls (m_chip s))"
  by (simp_all add: update_clocks_cycles_def update_timer_frame)

lemmas update_clocks_frame = update_clocks_cycles_frame [of 1, folded update_clocks_eq]



lemma drain_calls_Cons:
  "drain_calls ((a, v) # ws) = [WriteAddress a, WriteData v False, Generate 1] @ drain_calls ws"
  by (simp add: drain_calls_def)

lemma buffer_step:
  assumes "u < length buf"
  shows "take (Suc u) (take u buf @ [g] @ drop (Suc u) buf) @ [Suc g ..< Suc g + k]
           @ drop (Suc u + k) (take u buf @ [g] @ drop (Suc u) buf)
         = take u buf @ [g ..< g + Suc k] @ drop (u + Suc k) buf"
proof -
  have l: "length (take u buf) = u" using assms by simp
  have a: "take (Suc u) (take u buf @ [g] @ drop (Suc u) buf) = take u buf @ [g]"
    using l by (simp add: take_Suc_conv_app_nth)
  have b: "drop (Suc u + k) (take u buf @ [g] @ drop (Suc u) buf) = drop (u + Suc k) buf"
    using l assms by (simp add: add.commute)
  have c: "[g ..< g + Suc k] = g # [Suc g ..< Suc g + k]"
    by (simp add: upt_rec)
  show ?thesis unfolding a b c by simp
qed

lemma pregenerate_loop_result:
  "unat (m_backbuffer_used s) + unat samples \<le> length (m_backbuffer s) \<Longrightarrow>
   unat (m_backbuffer_used s) + unat samples < 2 ^ 32 \<Longrightarrow>
   \<exists>s'. pregenerate_loop samples s =
          Inr (samples - of_nat (min (unat samples) (length (m_write_queue s))), s') \<and>
     m_write_queue s' = drop (unat samples) (m_write_queue s) \<and>
     m_backbuffer_used s' = m_backbuffer_used s + of_nat (min (unat samples) (length (m_write_queue s))) \<and>
     m_backbuffer s' = take (unat (m_backbuffer_used s)) (m_backbuffer s)
        @ [chip_generated (m_chip s) ..< chip_generated (m_chip s) + min (unat samples) (length (m_write_queue s))]
        @ drop (unat (m_backbuffer_used s) + min (unat samples) (length (m_write_queue s))) (m_backbuffer s) \<and>
     chip_generated (m_chip s') = chip_generated (m_chip s) + min (unat samples) (length (m_write_queue s)) \<and>
     production_calls (chip_calls (m_chip s')) =
       production_calls (chip_calls (m_chip s)) @ drain_calls (take (unat samples) (m_write_queue s)) \<and>
     m_backbuffer_size s' = m_backbuffer_size s \<and>
     m_chip_sample_rate s' = m_chip_sample_rate s \<and>
     m_resampler s' = m_resampler s \<and>
     m_previous_sample_rate s' = m_previous_sample_rate s \<and>
     m_backbuffer_resampled s' = m_backbuffer_resampled s \<and>
     printed s' = printed s \<and>
     pregenerate_calls s' = pregenerate_calls s"
proof (induction "m_write_queue s" arbitrary: s samples)
  case Nil
  then show ?case
    by (subst pregenerate_loop.simps) (simp add: drain_calls_def)
next
  case (Cons w rest)
  obtain a v where w: "w = (a, v)" by (cases w)
  have q: "m_write_queue s = (a, v) # rest" using Cons.hyps(2) w by simp
  show ?case
  proof (cases "samples = 0")
    case True
    then show ?thesis
      by (subst pregenerate_loop.simps) (simp add: drain_calls_def)
  next
    case False
    then have pos: "0 < samples" by (simp add: word_gt_0)
    have us: "0 < unat samples" using False by (simp add: unat_gt_0)
    let ?u = "unat (m_backbuffer_used s)"
    let ?g = "chip_generated (m_chip s)"
    let ?c1 = "write_data v False (write_address a (m_chip s))"
    let ?buf = "take ?u (m_backbuffer s) @ [?g] @ drop (Suc ?u) (m_backbuffer s)"
    let ?c2 = "?c1\<lparr>chip_generated := Suc ?g, chip_calls := chip_calls ?c1 @ [Generate 1]\<rparr>"
    let ?s2 = "update_clocks (s\<lparr>m_chip := ?c1, m_backbuffer := ?buf, m_chip := ?c2\<rparr>)"
    let ?s4 = "?s2\<lparr>m_backbuffer_used := m_backbuffer_used ?s2 + 1,
                     m_write_queue := tl (m_write_queue ?s2)\<rparr>"
    have inrange: "?u < length (m_backbuffer s)" using Cons.prems(1) us by simp
    have gen: "chip_generate (m_backbuffer s) ?u 1 ?c1 = Inr (?buf, ?c2)"
      using inrange by (simp add: chip_generate_def write_data_def write_address_def)
    have unfold: "pregenerate_loop samples s = pregenerate_loop (samples - 1) ?s4"
      using pos q gen by (subst pregenerate_loop.simps) (simp add: Let_def)
    have u1: "unat (m_backbuffer_used s + 1) = Suc ?u"
      using Cons.prems(2) us by (simp add: unat_word_ariths)
    have n1: "unat (samples - 1) = unat samples - 1"
      using False by (simp add: unat_minus_one)
    have s4q: "m_write_queue ?s4 = rest" using q by (simp add: update_clocks_frame)
    have s4u: "m_backbuffer_used ?s4 = m_backbuffer_used s + 1" by (simp add: update_clocks_frame)
    have s4b: "m_backbuffer ?s4 = ?buf" by (simp add: update_clocks_frame)
    have s4g: "chip_generated (m_chip ?s4) = Suc ?g"
      by (simp add: update_clocks_frame)
    have s4c: "production_calls (chip_calls (m_chip ?s4)) =
        production_calls (chip_calls (m_chip s)) @ [WriteAddress a, WriteData v False, Generate 1]"
      by (simp add: update_clocks_frame write_data_def write_address_def)
    have lb: "length ?buf = length (m_backbuffer s)" using inrange by simp
    have p1: "unat (m_backbuffer_used ?s4) + unat (samples - 1) \<le> length (m_backbuffer ?s4)"
      unfolding s4u s4b u1 n1 lb using Cons.prems(1) us by simp
    have p2: "unat (m_backbuffer_used ?s4) + unat (samples - 1) < 2 ^ 32"
      unfolding s4u u1 n1 using Cons.prems(2) us by simp
    from Cons.hyps(1) [OF s4q [symmetric] p1 p2]
    obtain s' where
      r: "pregenerate_loop (samples - 1) ?s4 =
            Inr (samples - 1 - of_nat (min (unat (samples - 1)) (length (m_write_queue ?s4))), s')"
      and rq: "m_write_queue s' = drop (unat (samples - 1)) (m_write_queue ?s4)"
      and ru: "m_backbuffer_used s' = m_backbuffer_used ?s4 + of_nat (min (unat (samples - 1)) (length (m_write_queue ?s4)))"
      and rb: "m_backbuffer s' = take (unat (m_backbuffer_used ?s4)) (m_backbuffer ?s4)
        @ [chip_generated (m_chip ?s4) ..< chip_generated (m_chip ?s4) + min (unat (samples - 1)) (length (m_write_queue ?s4))]
        @ drop (unat (m_backbuffer_used ?s4) + min (unat (samples - 1)) (length (m_write_queue ?s4))) (m_backbuffer ?s4)"
      and rg: "chip_generated (m_chip s') = chip_generated (m_chip ?s4) + min (unat (samples - 1)) (length (m_write_queue ?s4))"
      and rc: "production_calls (chip_calls (m_chip s')) =
         production_calls (chip_calls (m_chip ?s4)) @ drain_calls (take (unat (samples - 1)) (m_write_queue ?s4))"
      and rf: "m_backbuffer_size s' = m_backbuffer_size ?s4"
        "m_chip_sample_rate s' = m_chip_sample_rate ?s4"
        "m_resampler s' = m_resampler ?s4"
        "m_previous_sample_rate s' = m_previous_sample_rate ?s4"
        "m_backbuffer_resampled s' = m_backbuffer_resampled ?s4"
        "printed s' = printed ?s4"
        "pregenerate_calls s' = pregenerate_calls ?s4"
      by blast
    let ?k = "min (unat samples - 1) (length rest)"
    have mn: "min (unat samples) (length (m_write_queue s)) = Suc ?k"
      using us q by simp
    have tk: "take (unat samples) (m_write_queue s) = (a, v) # take (unat samples - 1) rest"
      using us q by (cases "unat samples") simp_all
    have dr: "drop (unat samples) (m_write_queue s) = drop (unat samples - 1) rest"
      using us q by (cases "unat samples") simp_all
    have e1: "pregenerate_loop samples s =
          Inr (samples - of_nat (min (unat samples) (length (m_write_queue s))), s')"
      unfolding unfold r mn s4q n1 by simp
    have e2: "m_write_queue s' = drop (unat samples) (m_write_queue s)"
      unfolding rq s4q n1 dr ..
    have e3: "m_backbuffer_used s' = m_backbuffer_used s + of_nat (min (unat samples) (length (m_write_queue s)))"
      unfolding ru s4u s4q n1 mn by simp
    have e4: "m_backbuffer s' = take ?u (m_backbuffer s)
        @ [?g ..< ?g + min (unat samples) (length (m_write_queue s))]
        @ drop (?u + min (unat samples) (length (m_write_queue s))) (m_backbuffer s)"
      unfolding rb s4u s4b s4g s4q u1 n1 mn using buffer_step [OF inrange, of ?g ?k] by simp
    have e5: "chip_generated (m_chip s') = ?g + min (unat samples) (length (m_write_queue s))"
      unfolding rg s4g s4q n1 mn by simp
    have e6: "production_calls (chip_calls (m_chip s')) =
       production_calls (chip_calls (m_chip s)) @ drain_calls (take (unat samples) (m_write_queue s))"
      unfolding rc s4c s4q n1 tk drain_calls_Cons by simp
    have e7: "m_backbuffer_size s' = m_backbuffer_size s"
        "m_chip_sample_rate s' = m_chip_sample_rate s"
        "m_resampler s' = m_resampler s"
        "m_previous_sample_rate s' = m_previous_sample_rate s"
        "m_backbuffer_resampled s' = m_backbuffer_resampled s"
        "printed s' = printed s"
        "pregenerate_calls s' = pregenerate_calls s"
      unfolding rf by (simp_all add: update_clocks_frame)
    from e1 e2 e3 e4 e5 e6 e7 show ?thesis by blast
  qed
qed


lemma buffer_join:
  assumes "u + k + j \<le> length buf"
  shows "take (u + k) (take u buf @ [g ..< g + k] @ drop (u + k) buf) @ [g + k ..< g + k + j]
           @ drop (u + k + j) (take u buf @ [g ..< g + k] @ drop (u + k) buf)
         = take u buf @ [g ..< g + (k + j)] @ drop (u + (k + j)) buf"
proof -
  have l: "length (take u buf) = u" using assms by simp
  have a: "take (u + k) (take u buf @ [g ..< g + k] @ drop (u + k) buf) = take u buf @ [g ..< g + k]"
    using l by simp
  have b: "drop (u + k + j) (take u buf @ [g ..< g + k] @ drop (u + k) buf) = drop (u + (k + j)) buf"
    using l by (simp add: ac_simps)
  have c: "[g ..< g + (k + j)] = [g ..< g + k] @ [g + k ..< g + k + j]"
    using upt_add_eq_append [of g "g + k" j] by (simp only: add.assoc le_add1)
  show ?thesis unfolding a b c by simp
qed

lemma clamp_samples:
  assumes inv: "m_backbuffer_used s \<le> m_backbuffer_size s"
    and nowrap: "unat (m_backbuffer_used s) + unat n < 2 ^ 32"
  shows "unat (if m_backbuffer_used s + n > m_backbuffer_size s
               then m_backbuffer_size s - m_backbuffer_used s else n)
         = min (unat n) (unat (m_backbuffer_size s) - unat (m_backbuffer_used s))"
proof -
  have sum: "unat (m_backbuffer_used s + n) = unat (m_backbuffer_used s) + unat n"
    using nowrap by (simp add: unat_word_ariths)
  have diff: "unat (m_backbuffer_size s - m_backbuffer_used s)
      = unat (m_backbuffer_size s) - unat (m_backbuffer_used s)"
    using inv by (simp add: unat_sub)
  have le: "unat (m_backbuffer_used s) \<le> unat (m_backbuffer_size s)"
    using inv by (simp add: word_le_nat_alt)
  show ?thesis
  proof (cases "m_backbuffer_used s + n > m_backbuffer_size s")
    case True
    then have "unat (m_backbuffer_size s) < unat (m_backbuffer_used s) + unat n"
      using sum by (simp add: word_less_nat_alt)
    with True diff le show ?thesis by simp
  next
    case False
    then have "unat (m_backbuffer_used s) + unat n \<le> unat (m_backbuffer_size s)"
      using sum by (simp add: word_less_nat_alt not_less)
    with False le show ?thesis by simp
  qed
qed

lemma pregenerate_samples_result:
  assumes inv: "m_backbuffer_used s \<le> m_backbuffer_size s"
    and arr: "unat (m_backbuffer_size s) \<le> length (m_backbuffer s)"
    and nowrap: "unat (m_backbuffer_used s) + unat n < 2 ^ 32"
  shows "\<exists>s'. pregenerate_samples n s = Inr s' \<and>
     unat (m_backbuffer_used s') = unat (m_backbuffer_used s)
        + min (unat n) (unat (m_backbuffer_size s) - unat (m_backbuffer_used s)) \<and>
     m_write_queue s' = drop (min (unat n) (unat (m_backbuffer_size s) - unat (m_backbuffer_used s))) (m_write_queue s) \<and>
     m_backbuffer s' = take (unat (m_backbuffer_used s)) (m_backbuffer s)
        @ [chip_generated (m_chip s) ..< chip_generated (m_chip s)
              + min (unat n) (unat (m_backbuffer_size s) - unat (m_backbuffer_used s))]
        @ drop (unat (m_backbuffer_used s)
              + min (unat n) (unat (m_backbuffer_size s) - unat (m_backbuffer_used s))) (m_backbuffer s) \<and>
     chip_generated (m_chip s') = chip_generated (m_chip s)
        + min (unat n) (unat (m_backbuffer_size s) - unat (m_backbuffer_used s)) \<and>
     production_calls (chip_calls (m_chip s')) =
       production_calls (chip_calls (m_chip s))
        @ drain_calls (take (min (unat n) (unat (m_backbuffer_size s) - unat (m_backbuffer_used s))) (m_write_queue s))
        @ (if length (m_write_queue s) < min (unat n) (unat (m_backbuffer_size s) - unat (m_backbuffer_used s))
           then [Generate (min (unat n) (unat (m_backbuffer_size s) - unat (m_backbuffer_used s))
                            - length (m_write_queue s))]
           else []) \<and>
     m_backbuffer_size s' = m_backbuffer_size s \<and>
     m_chip_sample_rate s' = m_chip_sample_rate s \<and>
     m_resampler s' = m_resampler s \<and>
     m_previous_sample_rate s' = m_previous_sample_rate s \<and>
     m_backbuffer_resampled s' = m_backbuffer_resampled s \<and>
     printed s' = printed s \<and>
     pregenerate_calls s' = pregenerate_calls s @ [n]"
proof -
  let ?u = "unat (m_backbuffer_used s)"
  let ?g = "chip_generated (m_chip s)"
  let ?q = "m_write_queue s"
  let ?buf = "m_backbuffer s"
  let ?sg = "s\<lparr>pregenerate_calls := pregenerate_calls s @ [n]\<rparr>"
  define samples where "samples = (if m_backbuffer_used s + n > m_backbuffer_size s
               then m_backbuffer_size s - m_backbuffer_used s else n)"
  define m where "m = min (unat n) (unat (m_backbuffer_size s) - ?u)"
  define k where "k = min m (length ?q)"
  have sm: "unat samples = m"
    unfolding samples_def m_def by (rule clamp_samples [OF inv nowrap])
  have le: "?u \<le> unat (m_backbuffer_size s)"
    using inv by (simp add: word_le_nat_alt)
  have fits: "?u + m \<le> length ?buf" using arr le by (simp add: m_def)
  have small: "?u + m < 2 ^ 32" using nowrap by (simp add: m_def)
  have samples_sg: "(if m_backbuffer_used ?sg + n > m_backbuffer_size ?sg
       then m_backbuffer_size ?sg - m_backbuffer_used ?sg else n) = samples"
    by (simp add: samples_def)
  from pregenerate_loop_result [of ?sg samples] fits small sm
  obtain s1 where
    r: "pregenerate_loop samples ?sg = Inr (samples - of_nat k, s1)"
    and rq: "m_write_queue s1 = drop m ?q"
    and ru: "m_backbuffer_used s1 = m_backbuffer_used s + of_nat k"
    and rb: "m_backbuffer s1 = take ?u ?buf @ [?g ..< ?g + k] @ drop (?u + k) ?buf"
    and rg: "chip_generated (m_chip s1) = ?g + k"
    and rc: "production_calls (chip_calls (m_chip s1)) =
       production_calls (chip_calls (m_chip s)) @ drain_calls (take m ?q)"
    and rf: "m_backbuffer_size s1 = m_backbuffer_size s"
        "m_chip_sample_rate s1 = m_chip_sample_rate s"
        "m_resampler s1 = m_resampler s"
        "m_previous_sample_rate s1 = m_previous_sample_rate s"
        "m_backbuffer_resampled s1 = m_backbuffer_resampled s"
        "printed s1 = printed s"
        "pregenerate_calls s1 = pregenerate_calls s @ [n]"
    unfolding k_def by auto
  have km: "k \<le> m" by (simp add: k_def)
  have kk: "unat (of_nat k :: 32 word) = k"
    using km small by (simp add: unat_of_nat)
  have rest: "unat (samples - of_nat k) = m - k"
    using km kk sm by (simp add: unat_sub word_le_nat_alt)
  have u1: "unat (m_backbuffer_used s1) = ?u + k"
    unfolding ru using kk km small by (simp add: unat_word_ariths)
  have unfold: "pregenerate_samples n s =
     (if samples - of_nat k > 0 then
        (case chip_generate (m_backbuffer s1) (unat (m_backbuffer_used s1)) (unat (samples - of_nat k)) (m_chip s1) of
           Inl e \<Rightarrow> Inl e
         | Inr (buf, chip) \<Rightarrow>
             (let s2 = update_clocks_cycles (samples - of_nat k) (s1\<lparr>m_backbuffer := buf, m_chip := chip\<rparr>)
              in Inr (s2\<lparr>m_backbuffer_used := m_backbuffer_used s2 + (samples - of_nat k)\<rparr>)))
      else Inr s1)"
    unfolding pregenerate_samples_def Let_def samples_sg r by simp
  show ?thesis
  proof (cases "k < m")
    case False
    then have km': "k = m" using km by simp
    have z: "samples - of_nat k = 0"
      using rest km' by (simp flip: unat_0_iff)
    have lq: "\<not> length ?q < m" using km' by (simp add: k_def)
    have c0: "pregenerate_samples n s = Inr s1" unfolding unfold z by simp
    have c1: "unat (m_backbuffer_used s1) = ?u + m" using u1 km' by simp
    have c2: "m_backbuffer s1 = take ?u ?buf @ [?g ..< ?g + m] @ drop (?u + m) ?buf"
      using rb km' by simp
    have c3: "chip_generated (m_chip s1) = ?g + m" using rg km' by simp
    have c4: "production_calls (chip_calls (m_chip s1)) =
       production_calls (chip_calls (m_chip s)) @ drain_calls (take m ?q)
         @ (if length ?q < m then [Generate (m - length ?q)] else [])"
      using rc lq by simp
    from c0 c1 rq c2 c3 c4 rf show ?thesis unfolding m_def [symmetric] by blast
  next
    case True
    then have lq: "length ?q < m" and kq: "k = length ?q" by (simp_all add: k_def)
    have nz: "0 < samples - of_nat k"
      using rest True by (simp add: word_gt_0 flip: unat_0_iff)
    let ?j = "m - k"
    let ?B = "take (?u + k) (m_backbuffer s1) @ [?g + k ..< ?g + k + ?j] @ drop (?u + k + ?j) (m_backbuffer s1)"
    let ?c = "(m_chip s1)\<lparr>chip_generated := ?g + k + ?j,
                            chip_calls := chip_calls (m_chip s1) @ [Generate ?j]\<rparr>"
    let ?s2 = "update_clocks_cycles (samples - of_nat k) (s1\<lparr>m_backbuffer := ?B, m_chip := ?c\<rparr>)"
    let ?s3 = "?s2\<lparr>m_backbuffer_used := m_backbuffer_used ?s2 + (samples - of_nat k)\<rparr>"
    have l1: "length (m_backbuffer s1) = length ?buf"
      unfolding rb using fits km by simp
    have gen: "chip_generate (m_backbuffer s1) (unat (m_backbuffer_used s1)) (unat (samples - of_nat k)) (m_chip s1)
        = Inr (?B, ?c)"
      unfolding u1 rest using l1 fits km by (simp add: chip_generate_def rg)
    have res: "pregenerate_samples n s = Inr ?s3"
      unfolding unfold using nz gen by (simp add: Let_def)
    have B: "?B = take ?u ?buf @ [?g ..< ?g + m] @ drop (?u + m) ?buf"
      unfolding rb using buffer_join [of ?u k ?j ?buf ?g] fits km by simp
    have used3: "m_backbuffer_used ?s3 = m_backbuffer_used s + samples"
      by (simp add: update_clocks_cycles_frame ru)
    have c1: "unat (m_backbuffer_used ?s3) = ?u + m"
      unfolding used3 using sm small by (simp add: unat_word_ariths)
    have c2: "m_write_queue ?s3 = drop m ?q"
      by (simp add: update_clocks_cycles_frame rq)
    have c3: "m_backbuffer ?s3 = take ?u ?buf @ [?g ..< ?g + m] @ drop (?u + m) ?buf"
      using B by (simp add: update_clocks_cycles_frame)
    have c4: "chip_generated (m_chip ?s3) = ?g + m"
      using km by (simp add: update_clocks_cycles_frame)
    have c5: "production_calls (chip_calls (m_chip ?s3)) =
       production_calls (chip_calls (m_chip s)) @ drain_calls (take m ?q)
         @ (if length ?q < m then [Generate (m - length ?q)] else [])"
      using rc kq lq by (simp add: update_clocks_cycles_frame)
    have c6: "m_backbuffer_size ?s3 = m_backbuffer_size s"
        "m_chip_sample_rate ?s3 = m_chip_sample_rate s"
        "m_resampler ?s3 = m_resampler s"
        "m_previous_sample_rate ?s3 = m_previous_sample_rate s"
        "m_backbuffer_resampled ?s3 = m_backbuffer_resampled s"
        "printed ?s3 = printed s"
        "pregenerate_calls ?s3 = pregenerate_calls s @ [n]"
      using rf by (simp_all add: update_clocks_cycles_frame)
    from res c1 c2 c3 c4 c5 c6 show ?thesis unfolding m_def [symmetric] by blast
  qed
qed

text \<open>
  The overload with a count. With the backbuffer within its capacity and \<open>used + n\<close> within
  32 bits, \<^verbatim>\<open>pregenerate(n)\<close> returns, and for \<open>m\<close> the number of samples it produces (\<open>n\<close> clamped
  to the free space): the first \<open>m\<close> entries of the write queue leave the queue and the rest
  stay; what the engine sees is, for each entry that left, in queue order, its address,
  its data and then exactly one generated sample, followed by the remaining samples in
  one call. So an entry is applied when it leaves the queue, once, before the sample of
  its tick, and entries are applied in the order \<^verbatim>\<open>write\<close> appended them while busy.
\<close>

lemma pregenerate_samples_drains_in_order:
  assumes "m_backbuffer_used s \<le> m_backbuffer_size s"
    and "unat (m_backbuffer_size s) \<le> length (m_backbuffer s)"
    and "unat (m_backbuffer_used s) + unat n < 2 ^ 32"
  shows "\<exists>s'. pregenerate_samples n s = Inr s' \<and>
     m_write_queue s' =
       drop (min (unat n) (unat (m_backbuffer_size s) - unat (m_backbuffer_used s))) (m_write_queue s) \<and>
     production_calls (chip_calls (m_chip s')) =
       production_calls (chip_calls (m_chip s))
        @ drain_calls (take (min (unat n) (unat (m_backbuffer_size s) - unat (m_backbuffer_used s)))
                         (m_write_queue s))
        @ (if length (m_write_queue s) < min (unat n) (unat (m_backbuffer_size s) - unat (m_backbuffer_used s))
           then [Generate (min (unat n) (unat (m_backbuffer_size s) - unat (m_backbuffer_used s))
                            - length (m_write_queue s))]
           else []) \<and>
     (ymfm_is_busy s \<longrightarrow>
        m_write_queue (interface_write False addr val s) = m_write_queue s @ [(addr, val)])"
proof -
  have "ymfm_is_busy s \<longrightarrow>
        m_write_queue (interface_write False addr val s) = m_write_queue s @ [(addr, val)]"
    by (simp add: interface_write_def)
  with pregenerate_samples_result [OF assms] show ?thesis by blast
qed

text \<open>The scenario of the spec: the chip is busy for 640 clocks, three writes to registers
  0x08, 0x18 and 0x1B are submitted meanwhile, then 10 samples are produced. The three
  writes are applied in that order, one per sample, and seven more samples follow.\<close>

lemma pregenerate_samples_drains_example:
  "\<exists>s'. pregenerate_samples 10
           (interface_write False 0x1B 3 (interface_write False 0x18 2 (interface_write False 0x08 1
              (ymfm_set_busy_end 640 (new_ym2151_interface 62500))))) = Inr s' \<and>
     m_write_queue s' = [] \<and>
     production_calls (chip_calls (m_chip s')) =
       [WriteAddress 0x08, WriteData 1 False, Generate 1,
        WriteAddress 0x18, WriteData 2 False, Generate 1,
        WriteAddress 0x1B, WriteData 3 False, Generate 1,
        Generate 7]"
proof -
  let ?s = "interface_write False 0x1B 3 (interface_write False 0x18 2 (interface_write False 0x08 1
              (ymfm_set_busy_end 640 (new_ym2151_interface 62500))))"
  have q: "m_write_queue ?s = [(0x08, 1), (0x18, 2), (0x1B, 3)]"
    and u: "m_backbuffer_used ?s = 0" and z: "m_backbuffer_size ?s = 62500"
    and b: "m_backbuffer ?s = replicate 62500 0"
    and c: "chip_calls (m_chip ?s) = []"
    by (simp_all add: interface_write_def ymfm_is_busy_def ymfm_set_busy_end_def
        new_ym2151_interface_def new_chip_def)
  have h1: "m_backbuffer_used ?s \<le> m_backbuffer_size ?s" by (simp add: u z)
  have h2: "unat (m_backbuffer_size ?s) \<le> length (m_backbuffer ?s)" by (simp add: z b)
  have h3: "unat (m_backbuffer_used ?s) + unat (10 :: 32 word) < 2 ^ 32" by (simp add: u)
  from pregenerate_samples_drains_in_order [OF h1 h2 h3, of 0 0]
  show ?thesis unfolding q u z c by (auto simp add: drain_calls_def)
qed


lemma generate_empties_backbuffer:
  "generate buffers samples sample_rate s = Inr (b, s') \<Longrightarrow> m_backbuffer_used s' = 0"
  by (auto simp add: generate_def remove_used_def Let_def split: sum.splits prod.splits if_splits)

lemma pregenerate_single_result:
  assumes inv: "m_backbuffer_used s \<le> m_backbuffer_size s"
    and arr: "unat (m_backbuffer_size s) \<le> length (m_backbuffer s)"
  shows "\<exists>s'. pregenerate s = Inr s' \<and> m_backbuffer_used s' \<le> m_backbuffer_size s' \<and>
     unat (m_backbuffer_size s') \<le> length (m_backbuffer s') \<and>
     m_write_queue s' = m_write_queue s"
proof (cases "m_backbuffer_used s < m_backbuffer_size s")
  case False
  then show ?thesis using inv arr by (simp add: pregenerate_def)
next
  case True
  let ?u = "unat (m_backbuffer_used s)"
  have lt: "?u < unat (m_backbuffer_size s)" using True by (simp add: word_less_nat_alt)
  then have inrange: "?u < length (m_backbuffer s)" using arr by simp
  have "unat (m_backbuffer_size s) < 2 ^ 32"
    using unsigned_less [of "m_backbuffer_size s", where 'a = nat] by simp
  then have u1: "unat (m_backbuffer_used s + 1) = Suc ?u"
    using lt by (simp add: unat_word_ariths)
  have le: "m_backbuffer_used s + 1 \<le> m_backbuffer_size s"
    using u1 lt by (simp add: word_le_nat_alt)
  show ?thesis
    using True inrange le arr
    by (cases "hd (m_write_queue s)")
       (auto simp add: pregenerate_def chip_generate_def Let_def update_clocks_frame)
qed

text \<open>
  Claim C7. \<^verbatim>\<open>m_backbuffer_used <= m_backbuffer_size\<close> is kept by every operation that
  changes the count. With the count within the capacity, the capacity within the array
  and \<open>used + n\<close> within 32 bits, \<^verbatim>\<open>pregenerate(n)\<close> returns; it produces \<open>n\<close> samples clamped to
  the free space \<open>size - used\<close>; the count grows by exactly the number of samples the
  engine generated; the samples that were in the buffer are still there; and on a full
  buffer nothing is generated and nothing changes in the buffer. \<^verbatim>\<open>pregenerate()\<close> keeps the
  bound as well, \<^verbatim>\<open>generate\<close> and \<^verbatim>\<open>clear_backbuffer\<close> leave the count at 0.
\<close>

theorem backbuffer_used_within_capacity:
  assumes "m_backbuffer_used s \<le> m_backbuffer_size s"
    and "unat (m_backbuffer_size s) \<le> length (m_backbuffer s)"
    and "unat (m_backbuffer_used s) + unat n < 2 ^ 32"
  shows "(\<exists>s'. pregenerate_samples n s = Inr s' \<and>
            m_backbuffer_used s' \<le> m_backbuffer_size s' \<and>
            unat (m_backbuffer_size s') \<le> length (m_backbuffer s') \<and>
            unat (m_backbuffer_used s') = unat (m_backbuffer_used s)
               + min (unat n) (unat (m_backbuffer_size s) - unat (m_backbuffer_used s)) \<and>
            chip_generated (m_chip s') = chip_generated (m_chip s)
               + (unat (m_backbuffer_used s') - unat (m_backbuffer_used s)) \<and>
            take (unat (m_backbuffer_used s)) (m_backbuffer s')
               = take (unat (m_backbuffer_used s)) (m_backbuffer s) \<and>
            (m_backbuffer_used s = m_backbuffer_size s \<longrightarrow>
               m_backbuffer_used s' = m_backbuffer_used s \<and> m_backbuffer s' = m_backbuffer s \<and>
               chip_generated (m_chip s') = chip_generated (m_chip s))) \<and>
         (\<exists>s'. pregenerate s = Inr s' \<and> m_backbuffer_used s' \<le> m_backbuffer_size s') \<and>
         (\<forall>b k r b' s'. generate b k r s = Inr (b', s') \<longrightarrow> m_backbuffer_used s' = 0) \<and>
         m_backbuffer_used (clear_backbuffer s) = 0"
proof -
  let ?u = "unat (m_backbuffer_used s)"
  let ?m = "min (unat n) (unat (m_backbuffer_size s) - ?u)"
  from pregenerate_samples_result [OF assms] obtain s' where
    r: "pregenerate_samples n s = Inr s'"
    and ru: "unat (m_backbuffer_used s') = ?u + ?m"
    and rb: "m_backbuffer s' = take ?u (m_backbuffer s)
        @ [chip_generated (m_chip s) ..< chip_generated (m_chip s) + ?m]
        @ drop (?u + ?m) (m_backbuffer s)"
    and rg: "chip_generated (m_chip s') = chip_generated (m_chip s) + ?m"
    and rs: "m_backbuffer_size s' = m_backbuffer_size s"
    by blast
  have le: "?u \<le> unat (m_backbuffer_size s)"
    using assms(1) by (simp add: word_le_nat_alt)
  have fits: "?u + ?m \<le> length (m_backbuffer s)" using assms(2) le by simp
  have a: "m_backbuffer_used s' \<le> m_backbuffer_size s'"
    unfolding rs using ru le by (simp add: word_le_nat_alt)
  have b: "unat (m_backbuffer_size s') \<le> length (m_backbuffer s')"
    unfolding rs rb using assms(2) fits by simp
  have c: "chip_generated (m_chip s') = chip_generated (m_chip s)
               + (unat (m_backbuffer_used s') - ?u)"
    using rg ru by simp
  have d: "take ?u (m_backbuffer s') = take ?u (m_backbuffer s)"
    unfolding rb using fits by simp
  have e: "m_backbuffer_used s = m_backbuffer_size s \<longrightarrow>
       m_backbuffer_used s' = m_backbuffer_used s \<and> m_backbuffer s' = m_backbuffer s \<and>
       chip_generated (m_chip s') = chip_generated (m_chip s)"
  proof
    assume full: "m_backbuffer_used s = m_backbuffer_size s"
    then have z: "?m = 0" by simp
    have "unat (m_backbuffer_used s') = ?u" using ru z by simp
    then have "m_backbuffer_used s' = m_backbuffer_used s" by (simp add: word_unat_eq_iff)
    moreover have "m_backbuffer s' = m_backbuffer s" using rb z by simp
    moreover have "chip_generated (m_chip s') = chip_generated (m_chip s)" using rg z by simp
    ultimately show "m_backbuffer_used s' = m_backbuffer_used s \<and> m_backbuffer s' = m_backbuffer s \<and>
       chip_generated (m_chip s') = chip_generated (m_chip s)" by blast
  qed
  have f: "\<exists>s'. pregenerate s = Inr s' \<and> m_backbuffer_used s' \<le> m_backbuffer_size s'"
    using pregenerate_single_result [OF assms(1,2)] by blast
  have g: "\<forall>b k r b' s'. generate b k r s = Inr (b', s') \<longrightarrow> m_backbuffer_used s' = 0"
    using generate_empties_backbuffer by blast
  have h: "m_backbuffer_used (clear_backbuffer s) = 0" by (simp add: clear_backbuffer_def)
  from r a b ru c d e f g h show ?thesis by blast
qed

text \<open>Five free slots and ten samples asked for: five are produced and the buffer is full.\<close>

theorem backbuffer_used_within_capacity_witness:
  "\<exists>s'. pregenerate_samples 10 ((new_ym2151_interface 62500)\<lparr>m_backbuffer_used := 62495\<rparr>) = Inr s' \<and>
     unat (m_backbuffer_used s') = 62500 \<and>
     m_backbuffer_used s' \<le> m_backbuffer_size s' \<and>
     chip_generated (m_chip s') = 5"
proof -
  let ?s = "(new_ym2151_interface 62500)\<lparr>m_backbuffer_used := 62495\<rparr>"
  have u: "m_backbuffer_used ?s = 62495" and z: "m_backbuffer_size ?s = 62500"
    and b: "m_backbuffer ?s = replicate 62500 0"
    and g: "chip_generated (m_chip ?s) = 0"
    by (simp_all add: new_ym2151_interface_def new_chip_def)
  have h1: "m_backbuffer_used ?s \<le> m_backbuffer_size ?s" by (simp add: u z)
  have h2: "unat (m_backbuffer_size ?s) \<le> length (m_backbuffer ?s)" by (simp add: z b)
  have h3: "unat (m_backbuffer_used ?s) + unat (10 :: 32 word) < 2 ^ 32" by (simp add: u)
  from backbuffer_used_within_capacity [OF h1 h2 h3]
  obtain s' where "pregenerate_samples 10 ?s = Inr s'"
    and "m_backbuffer_used s' \<le> m_backbuffer_size s'"
    and "unat (m_backbuffer_used s') = unat (m_backbuffer_used ?s)
               + min (unat (10 :: 32 word)) (unat (m_backbuffer_size ?s) - unat (m_backbuffer_used ?s))"
    and "chip_generated (m_chip s') = chip_generated (m_chip ?s)
               + (unat (m_backbuffer_used s') - unat (m_backbuffer_used ?s))"
    by blast
  then show ?thesis unfolding u z g by simp
qed

text \<open>A remark on what lies outside the hypotheses above: the guard
  \<^verbatim>\<open>m_backbuffer_used + samples > m_backbuffer_size\<close> is computed in 32 bits: with one sample
  held and \<open>2^32 - 1\<close> asked for, the sum wraps to 0, nothing is clamped and the engine is
  told to write past the end of the array. No call in the file asks for that much:
  \<^verbatim>\<open>generate\<close> asks for \<^verbatim>\<open>orig_samples_needed - m_backbuffer_used\<close> when that is positive, and
  \<^verbatim>\<open>YM_prerender\<close> for a count of clocks divided by \<^verbatim>\<open>clocks_per_sample\<close>.\<close>

lemma pregenerate_samples_guard_wraps:
  "pregenerate_samples 0xFFFFFFFF ((new_ym2151_interface 62500)\<lparr>m_backbuffer_used := 1\<rparr>)
     = Inl BufferOverrun"
  by (simp add: pregenerate_samples_def pregenerate_loop.simps chip_generate_def
      new_ym2151_interface_def)

subsection \<open>Clocks to samples\<close>

lemma div_carry: "(a + b) div p = a div p + (a mod p + b) div (p::nat)"
proof (cases "p = 0")
  case True
  then show ?thesis by simp
next
  case False
  then have "(a mod p + b + a div p * p) div p = a div p + (a mod p + b) div p"
    by (rule div_mult_self1)
  moreover have "a mod p + b + a div p * p = a + b"
    by (simp add: add.commute add.left_commute)
  ultimately show ?thesis by (simp only:)
qed

lemma clocks_per_sample_nat:
  assumes "0 < get_sample_rate (Ym_interface g)" and "get_sample_rate (Ym_interface g) \<le> 4000000"
  shows "unat (clocks_per_sample g) = 8000000 div unat (get_sample_rate (Ym_interface g))"
    and "2 \<le> unat (clocks_per_sample g)"
proof -
  let ?r = "unat (get_sample_rate (Ym_interface g))"
  have r0: "0 < ?r" using assms(1) by (simp add: word_less_nat_alt)
  have r1: "?r \<le> 4000000" using assms(2) by (simp add: word_le_nat_alt)
  show eq: "unat (clocks_per_sample g) = 8000000 div ?r"
    by (simp add: clocks_per_sample_def unat_div)
  have "2 * ?r \<le> 8000000" using r1 by simp
  then have "2 \<le> 8000000 div ?r" using r0 by (simp add: less_eq_div_iff_mult_less_eq)
  then show "2 \<le> unat (clocks_per_sample g)" using eq by simp
qed

lemma YM_prerender_result:
  assumes inv: "m_backbuffer_used (Ym_interface g) \<le> m_backbuffer_size (Ym_interface g)"
    and arr: "unat (m_backbuffer_size (Ym_interface g)) \<le> length (m_backbuffer (Ym_interface g))"
    and cap: "m_backbuffer_size (Ym_interface g) \<le> 0x80000000"
    and r0: "0 < get_sample_rate (Ym_interface g)"
    and r1: "get_sample_rate (Ym_interface g) \<le> 4000000"
    and nw: "unat (clocks_elapsed g) + unat c < 2 ^ 32"
  shows "\<exists>g'. YM_prerender c g = Inr g' \<and>
     unat (samples_to_render (g\<lparr>clocks_elapsed := clocks_elapsed g + c\<rparr>)) =
       (unat (clocks_elapsed g) + unat c) div unat (clocks_per_sample g) \<and>
     unat (clocks_elapsed g') = (unat (clocks_elapsed g) + unat c) mod unat (clocks_per_sample g) \<and>
     m_backbuffer_used (Ym_interface g') \<le> m_backbuffer_size (Ym_interface g') \<and>
     unat (m_backbuffer_size (Ym_interface g')) \<le> length (m_backbuffer (Ym_interface g')) \<and>
     m_backbuffer_size (Ym_interface g') = m_backbuffer_size (Ym_interface g) \<and>
     get_sample_rate (Ym_interface g') = get_sample_rate (Ym_interface g) \<and>
     clocks_per_sample g' = clocks_per_sample g \<and>
     m_backbuffer_resampled (Ym_interface g') = m_backbuffer_resampled (Ym_interface g) \<and>
     samples_requested (Ym_interface g') = samples_requested (Ym_interface g)
        + (unat (clocks_elapsed g) + unat c) div unat (clocks_per_sample g) \<and>
     chip_generated (m_chip (Ym_interface g')) = chip_generated (m_chip (Ym_interface g))
        + min ((unat (clocks_elapsed g) + unat c) div unat (clocks_per_sample g))
              (unat (m_backbuffer_size (Ym_interface g)) - unat (m_backbuffer_used (Ym_interface g))) \<and>
     unat (m_backbuffer_used (Ym_interface g')) = unat (m_backbuffer_used (Ym_interface g))
        + min ((unat (clocks_elapsed g) + unat c) div unat (clocks_per_sample g))
              (unat (m_backbuffer_size (Ym_interface g)) - unat (m_backbuffer_used (Ym_interface g)))"
proof -
  let ?i = "Ym_interface g"
  let ?g1 = "g\<lparr>clocks_elapsed := clocks_elapsed g + c\<rparr>"
  let ?p = "unat (clocks_per_sample g)"
  let ?e = "unat (clocks_elapsed g) + unat c"
  let ?room = "unat (m_backbuffer_size ?i) - unat (m_backbuffer_used ?i)"
  have p2: "2 \<le> ?p" using clocks_per_sample_nat(2) [OF r0 r1] .
  have cps1: "clocks_per_sample ?g1 = clocks_per_sample g" by (simp add: clocks_per_sample_def)
  have pnz: "clocks_per_sample g \<noteq> 0" using p2 by (auto simp add: unat_eq_0)
  have rnz: "get_sample_rate ?i \<noteq> 0" using r0 by simp
  have e1: "unat (clocks_elapsed ?g1) = ?e" using nw by (simp add: unat_word_ariths)
  have str: "unat (samples_to_render ?g1) = ?e div ?p"
    by (simp add: samples_to_render_def unat_div e1 [simplified] cps1)
  have strle: "?e div ?p * ?p \<le> ?e" by simp
  have mul: "unat (samples_to_render ?g1 * clocks_per_sample g) = ?e div ?p * ?p"
  proof -
    have "?e div ?p * ?p < 2 ^ 32" using strle nw by (rule le_less_trans)
    then have "unat (samples_to_render ?g1) * ?p < 2 ^ 32" unfolding str .
    then show ?thesis using str by (simp add: unat_mult_lem [THEN iffD1])
  qed
  have rem: "unat (clocks_elapsed ?g1 - samples_to_render ?g1 * clocks_per_sample g) = ?e mod ?p"
  proof -
    have "samples_to_render ?g1 * clocks_per_sample g \<le> clocks_elapsed ?g1"
      using mul e1 strle by (simp add: word_le_nat_alt)
    then have "unat (clocks_elapsed ?g1 - samples_to_render ?g1 * clocks_per_sample g)
        = ?e - ?e div ?p * ?p"
      using mul e1 by (simp add: unat_sub)
    then show ?thesis by (simp add: minus_div_mult_eq_mod)
  qed
  show ?thesis
  proof (cases "0 < samples_to_render ?g1")
    case False
    then have "samples_to_render ?g1 = 0" by (simp add: word_gt_0)
    then have z: "?e div ?p = 0" using str by simp
    then have "?e mod ?p = ?e" using p2 by (simp add: div_eq_0_iff)
    then have "unat (clocks_elapsed ?g1) = ?e mod ?p" using e1 by simp
    moreover have "YM_prerender c g = Inr ?g1"
      using False rnz pnz by (simp add: YM_prerender_def Let_def cps1)
    ultimately show ?thesis using inv arr str cps1 z by simp
  next
    case True
    have half: "?e div ?p \<le> ?e div 2" using p2 by (simp add: div_le_mono2)
    have "unat (m_backbuffer_used ?i) \<le> 2 ^ 31"
      using inv cap by (simp add: word_le_nat_alt)
    moreover have "?e div 2 < 2 ^ 31" using nw by simp
    ultimately have nowrap: "unat (m_backbuffer_used ?i) + unat (samples_to_render ?g1) < 2 ^ 32"
      using str half by simp
    from pregenerate_samples_result [OF inv arr nowrap] obtain i' where
      r: "pregenerate_samples (samples_to_render ?g1) ?i = Inr i'"
      and ru: "unat (m_backbuffer_used i') = unat (m_backbuffer_used ?i)
        + min (unat (samples_to_render ?g1)) (unat (m_backbuffer_size ?i) - unat (m_backbuffer_used ?i))"
      and rb: "m_backbuffer i' = take (unat (m_backbuffer_used ?i)) (m_backbuffer ?i)
        @ [chip_generated (m_chip ?i) ..< chip_generated (m_chip ?i)
              + min (unat (samples_to_render ?g1)) (unat (m_backbuffer_size ?i) - unat (m_backbuffer_used ?i))]
        @ drop (unat (m_backbuffer_used ?i)
              + min (unat (samples_to_render ?g1)) (unat (m_backbuffer_size ?i) - unat (m_backbuffer_used ?i)))
            (m_backbuffer ?i)"
      and rs: "m_backbuffer_size i' = m_backbuffer_size ?i"
      and rr: "m_chip_sample_rate i' = m_chip_sample_rate ?i"
      and rl: "m_backbuffer_resampled i' = m_backbuffer_resampled ?i"
      and rg: "chip_generated (m_chip i') = chip_generated (m_chip ?i)
        + min (unat (samples_to_render ?g1)) (unat (m_backbuffer_size ?i) - unat (m_backbuffer_used ?i))"
      and rc: "pregenerate_calls i' = pregenerate_calls ?i @ [samples_to_render ?g1]"
      by blast
    let ?g' = "?g1\<lparr>Ym_interface := i',
        clocks_elapsed := clocks_elapsed ?g1 - samples_to_render ?g1 * clocks_per_sample ?g1\<rparr>"
    have res: "YM_prerender c g = Inr ?g'"
      using True rnz pnz r by (simp add: YM_prerender_def Let_def cps1)
    have le: "unat (m_backbuffer_used ?i) \<le> unat (m_backbuffer_size ?i)"
      using inv by (simp add: word_le_nat_alt)
    have a: "m_backbuffer_used i' \<le> m_backbuffer_size i'"
      unfolding rs using ru le by (simp add: word_le_nat_alt)
    have b: "unat (m_backbuffer_size i') \<le> length (m_backbuffer i')"
      unfolding rs rb using arr le by simp
    have c: "unat (clocks_elapsed ?g') = ?e mod ?p" using rem by (simp add: cps1)
    have d: "get_sample_rate (Ym_interface ?g') = get_sample_rate ?i"
      by (simp add: get_sample_rate_def rr)
    have e: "clocks_per_sample ?g' = clocks_per_sample g"
      by (simp add: clocks_per_sample_def get_sample_rate_def rr)
    have f: "m_backbuffer_size (Ym_interface ?g') = m_backbuffer_size ?i" by (simp add: rs)
    have a': "m_backbuffer_used (Ym_interface ?g') \<le> m_backbuffer_size (Ym_interface ?g')"
      using a by simp
    have b': "unat (m_backbuffer_size (Ym_interface ?g')) \<le> length (m_backbuffer (Ym_interface ?g'))"
      using b by simp
    have l: "m_backbuffer_resampled (Ym_interface ?g') = m_backbuffer_resampled ?i"
      by (simp add: rl)
    have h: "samples_requested (Ym_interface ?g') = samples_requested ?i + ?e div ?p"
      by (simp add: samples_requested_def rc str)
    have j: "chip_generated (m_chip (Ym_interface ?g')) = chip_generated (m_chip ?i) + min (?e div ?p) ?room"
      using rg str by simp
    have k: "unat (m_backbuffer_used (Ym_interface ?g')) = unat (m_backbuffer_used ?i) + min (?e div ?p) ?room"
      using ru str by simp
    from res str c a' b' f d e l h j k show ?thesis by blast
  qed
qed

lemma saturating_add:
  fixes a b r :: nat
  shows "min a r + min b (r - min a r) = min (a + b) r"
  by (auto simp add: min_def)

lemma prerender_run_result:
  "m_backbuffer_used (Ym_interface g) \<le> m_backbuffer_size (Ym_interface g) \<Longrightarrow>
   unat (m_backbuffer_size (Ym_interface g)) \<le> length (m_backbuffer (Ym_interface g)) \<Longrightarrow>
   m_backbuffer_size (Ym_interface g) \<le> 0x80000000 \<Longrightarrow>
   0 < get_sample_rate (Ym_interface g) \<Longrightarrow>
   get_sample_rate (Ym_interface g) \<le> 4000000 \<Longrightarrow>
   clocks_elapsed g < clocks_per_sample g \<Longrightarrow>
   \<forall>c \<in> set cs. unat c + unat (clocks_per_sample g) \<le> 2 ^ 32 \<Longrightarrow>
   \<exists>g'. prerender_run cs g = Inr g' \<and>
        samples_requested (Ym_interface g') = samples_requested (Ym_interface g)
          + (unat (clocks_elapsed g) + sum_list (map unat cs)) div unat (clocks_per_sample g) \<and>
        chip_generated (m_chip (Ym_interface g')) = chip_generated (m_chip (Ym_interface g))
          + min ((unat (clocks_elapsed g) + sum_list (map unat cs)) div unat (clocks_per_sample g))
                (unat (m_backbuffer_size (Ym_interface g)) - unat (m_backbuffer_used (Ym_interface g))) \<and>
        unat (m_backbuffer_used (Ym_interface g')) = unat (m_backbuffer_used (Ym_interface g))
          + min ((unat (clocks_elapsed g) + sum_list (map unat cs)) div unat (clocks_per_sample g))
                (unat (m_backbuffer_size (Ym_interface g)) - unat (m_backbuffer_used (Ym_interface g))) \<and>
        unat (clocks_elapsed g') =
          (unat (clocks_elapsed g) + sum_list (map unat cs)) mod unat (clocks_per_sample g)"
proof (induction cs arbitrary: g)
  case Nil
  then show ?case by (simp add: word_less_nat_alt)
next
  case (Cons c cs)
  let ?p = "unat (clocks_per_sample g)"
  let ?e = "unat (clocks_elapsed g)"
  let ?u = "unat (m_backbuffer_used (Ym_interface g))"
  let ?room = "unat (m_backbuffer_size (Ym_interface g)) - ?u"
  let ?rest = "sum_list (map unat cs)"
  let ?n1 = "(?e + unat c) div ?p"
  let ?n2 = "((?e + unat c) mod ?p + ?rest) div ?p"
  have lt: "?e < ?p" using Cons.prems(6) by (simp add: word_less_nat_alt)
  have nw: "?e + unat c < 2 ^ 32" using Cons.prems(7) lt by simp
  from YM_prerender_result [OF Cons.prems(1-5) nw] obtain g1 where
    r: "YM_prerender c g = Inr g1"
    and e1: "unat (clocks_elapsed g1) = (?e + unat c) mod ?p"
    and inv1: "m_backbuffer_used (Ym_interface g1) \<le> m_backbuffer_size (Ym_interface g1)"
    and arr1: "unat (m_backbuffer_size (Ym_interface g1)) \<le> length (m_backbuffer (Ym_interface g1))"
    and size1: "m_backbuffer_size (Ym_interface g1) = m_backbuffer_size (Ym_interface g)"
    and rate1: "get_sample_rate (Ym_interface g1) = get_sample_rate (Ym_interface g)"
    and cps1: "clocks_per_sample g1 = clocks_per_sample g"
    and q1: "samples_requested (Ym_interface g1) = samples_requested (Ym_interface g) + ?n1"
    and c1: "chip_generated (m_chip (Ym_interface g1)) = chip_generated (m_chip (Ym_interface g))
        + min ?n1 ?room"
    and u1: "unat (m_backbuffer_used (Ym_interface g1)) = ?u + min ?n1 ?room"
    by blast
  have p0: "0 < ?p" using lt by simp
  have lt1: "clocks_elapsed g1 < clocks_per_sample g1"
    unfolding cps1 using e1 p0 by (simp add: word_less_nat_alt)
  have all1: "\<forall>c \<in> set cs. unat c + unat (clocks_per_sample g1) \<le> 2 ^ 32"
    unfolding cps1 using Cons.prems(7) by simp
  have cap1: "m_backbuffer_size (Ym_interface g1) \<le> 0x80000000"
    unfolding size1 by (rule Cons.prems(3))
  have r01: "0 < get_sample_rate (Ym_interface g1)" unfolding rate1 by (rule Cons.prems(4))
  have r11: "get_sample_rate (Ym_interface g1) \<le> 4000000" unfolding rate1 by (rule Cons.prems(5))
  from Cons.IH [OF inv1 arr1 cap1 r01 r11 lt1 all1]
  obtain g' where
    r2: "prerender_run cs g1 = Inr g'"
    and q2: "samples_requested (Ym_interface g') = samples_requested (Ym_interface g1) + ?n2"
    and c2: "chip_generated (m_chip (Ym_interface g')) = chip_generated (m_chip (Ym_interface g1))
        + min ?n2 (?room - min ?n1 ?room)"
    and u2: "unat (m_backbuffer_used (Ym_interface g')) = unat (m_backbuffer_used (Ym_interface g1))
        + min ?n2 (?room - min ?n1 ?room)"
    and e2: "unat (clocks_elapsed g') = ((?e + unat c) mod ?p + ?rest) mod ?p"
    unfolding size1 cps1 e1 u1 by (auto simp add: diff_diff_eq)
  have split: "?n1 + ?n2 = (?e + sum_list (map unat (c # cs))) div ?p"
    using div_carry [of "?e + unat c" ?rest ?p] by (simp add: add.assoc)
  have sat: "min ?n1 ?room + min ?n2 (?room - min ?n1 ?room)
      = min ((?e + sum_list (map unat (c # cs))) div ?p) ?room"
    unfolding saturating_add split ..
  have run: "prerender_run (c # cs) g = Inr g'" using r r2 by simp
  have q: "samples_requested (Ym_interface g') = samples_requested (Ym_interface g)
      + (?e + sum_list (map unat (c # cs))) div ?p"
    unfolding q2 q1 split [symmetric] by simp
  have cg: "chip_generated (m_chip (Ym_interface g')) = chip_generated (m_chip (Ym_interface g))
      + min ((?e + sum_list (map unat (c # cs))) div ?p) ?room"
    unfolding c2 c1 sat [symmetric] by simp
  have us: "unat (m_backbuffer_used (Ym_interface g')) = ?u
      + min ((?e + sum_list (map unat (c # cs))) div ?p) ?room"
    unfolding u2 u1 sat [symmetric] by simp
  have el: "unat (clocks_elapsed g') = (?e + sum_list (map unat (c # cs))) mod ?p"
    using e2 by (simp add: mod_add_left_eq add.assoc)
  from run q cg us el show ?case by blast
qed

text \<open>
  Claim C8. \<^verbatim>\<open>YM_prerender\<close> keeps the clocks that did not make a whole sample in
  \<^verbatim>\<open>clocks_elapsed\<close>. From a state whose remainder is below \<^verbatim>\<open>clocks_per_sample\<close> (0 at the
  start), a run of calls with clocks \<open>cs\<close> returns, and the arguments it passes to
  \<^verbatim>\<open>pregenerate\<close>, as recorded by the interface, add up to the floor of
  (remainder + sum of \<open>cs\<close>) / \<^verbatim>\<open>clocks_per_sample\<close>. The engine generates that many samples,
  or as many as the backbuffer had room for; the new remainder is the rest of the
  division. A single call with the summed clocks passes the same number, generates the
  same number and leaves the same remainder. The hypotheses keep the 32-bit arithmetic
  exact: a native rate between 1 and 4000000, a capacity of at most \<open>2^31\<close> samples, and
  calls whose clocks plus one sample's worth fit in 32 bits.
\<close>

theorem prerender_carries_remainder:
  assumes "m_backbuffer_used (Ym_interface g) \<le> m_backbuffer_size (Ym_interface g)"
    and "unat (m_backbuffer_size (Ym_interface g)) \<le> length (m_backbuffer (Ym_interface g))"
    and "m_backbuffer_size (Ym_interface g) \<le> 0x80000000"
    and "0 < get_sample_rate (Ym_interface g)"
    and "get_sample_rate (Ym_interface g) \<le> 4000000"
    and "clocks_elapsed g < clocks_per_sample g"
    and "\<forall>c \<in> set cs. unat c + unat (clocks_per_sample g) \<le> 2 ^ 32"
  shows "(\<exists>g'. prerender_run cs g = Inr g' \<and>
          samples_requested (Ym_interface g') = samples_requested (Ym_interface g)
            + (unat (clocks_elapsed g) + sum_list (map unat cs)) div unat (clocks_per_sample g) \<and>
          chip_generated (m_chip (Ym_interface g')) = chip_generated (m_chip (Ym_interface g))
            + min ((unat (clocks_elapsed g) + sum_list (map unat cs)) div unat (clocks_per_sample g))
                  (unat (m_backbuffer_size (Ym_interface g)) - unat (m_backbuffer_used (Ym_interface g))) \<and>
          unat (clocks_elapsed g') =
            (unat (clocks_elapsed g) + sum_list (map unat cs)) mod unat (clocks_per_sample g)) \<and>
         (\<forall>whole. unat whole = sum_list (map unat cs) \<and>
                  unat whole + unat (clocks_per_sample g) \<le> 2 ^ 32 \<longrightarrow>
            (\<exists>g'. prerender_run [whole] g = Inr g' \<and>
               samples_requested (Ym_interface g') = samples_requested (Ym_interface g)
                 + (unat (clocks_elapsed g) + sum_list (map unat cs)) div unat (clocks_per_sample g) \<and>
               chip_generated (m_chip (Ym_interface g')) = chip_generated (m_chip (Ym_interface g))
                 + min ((unat (clocks_elapsed g) + sum_list (map unat cs)) div unat (clocks_per_sample g))
                       (unat (m_backbuffer_size (Ym_interface g)) - unat (m_backbuffer_used (Ym_interface g))) \<and>
               unat (clocks_elapsed g') =
                 (unat (clocks_elapsed g) + sum_list (map unat cs)) mod unat (clocks_per_sample g)))"
proof -
  have single: "\<exists>g'. prerender_run [whole] g = Inr g' \<and>
               samples_requested (Ym_interface g') = samples_requested (Ym_interface g)
                 + (unat (clocks_elapsed g) + sum_list (map unat cs)) div unat (clocks_per_sample g) \<and>
               chip_generated (m_chip (Ym_interface g')) = chip_generated (m_chip (Ym_interface g))
                 + min ((unat (clocks_elapsed g) + sum_list (map unat cs)) div unat (clocks_per_sample g))
                       (unat (m_backbuffer_size (Ym_interface g)) - unat (m_backbuffer_used (Ym_interface g))) \<and>
               unat (clocks_elapsed g') =
                 (unat (clocks_elapsed g) + sum_list (map unat cs)) mod unat (clocks_per_sample g)"
    if w: "unat whole = sum_list (map unat cs)"
      and f: "unat whole + unat (clocks_per_sample g) \<le> 2 ^ 32" for whole
  proof -
    have one: "\<forall>c \<in> set [whole]. unat c + unat (clocks_per_sample g) \<le> 2 ^ 32"
      using f by simp
    have s: "sum_list (map unat [whole]) = sum_list (map unat cs)" using w by simp
    from prerender_run_result [OF assms(1-6) one] show ?thesis unfolding s by blast
  qed
  from prerender_run_result [OF assms] obtain g' where
    "prerender_run cs g = Inr g'"
    "samples_requested (Ym_interface g') = samples_requested (Ym_interface g)
       + (unat (clocks_elapsed g) + sum_list (map unat cs)) div unat (clocks_per_sample g)"
    "chip_generated (m_chip (Ym_interface g')) = chip_generated (m_chip (Ym_interface g))
       + min ((unat (clocks_elapsed g) + sum_list (map unat cs)) div unat (clocks_per_sample g))
             (unat (m_backbuffer_size (Ym_interface g)) - unat (m_backbuffer_used (Ym_interface g)))"
    "unat (clocks_elapsed g') =
       (unat (clocks_elapsed g) + sum_list (map unat cs)) mod unat (clocks_per_sample g)"
    by blast
  then have many: "\<exists>g'. prerender_run cs g = Inr g' \<and>
          samples_requested (Ym_interface g') = samples_requested (Ym_interface g)
            + (unat (clocks_elapsed g) + sum_list (map unat cs)) div unat (clocks_per_sample g) \<and>
          chip_generated (m_chip (Ym_interface g')) = chip_generated (m_chip (Ym_interface g))
            + min ((unat (clocks_elapsed g) + sum_list (map unat cs)) div unat (clocks_per_sample g))
                  (unat (m_backbuffer_size (Ym_interface g)) - unat (m_backbuffer_used (Ym_interface g))) \<and>
          unat (clocks_elapsed g') =
            (unat (clocks_elapsed g) + sum_list (map unat cs)) mod unat (clocks_per_sample g)"
    by blast
  from many single show ?thesis by blast
qed

text \<open>At a native rate of 62500 Hz a sample is 128 clocks: three calls of 100 clocks pass
  1 to \<^verbatim>\<open>pregenerate\<close> twice, 2 samples in all, as one call of 300 clocks does; both leave
  2 generated samples and 44 clocks.\<close>

theorem prerender_carries_remainder_witness:
  "(\<exists>g'. prerender_run [100, 100, 100] (new_ym_state 62500) = Inr g' \<and>
          samples_requested (Ym_interface g') = 2 \<and>
          chip_generated (m_chip (Ym_interface g')) = 2 \<and>
          unat (clocks_elapsed g') = 44) \<and>
   (\<exists>g'. prerender_run [300] (new_ym_state 62500) = Inr g' \<and>
          samples_requested (Ym_interface g') = 2 \<and>
          chip_generated (m_chip (Ym_interface g')) = 2 \<and>
          unat (clocks_elapsed g') = 44)"
proof -
  let ?g = "new_ym_state 62500"
  have cps: "clocks_per_sample ?g = 128"
    by (simp add: clocks_per_sample_def get_sample_rate_def new_ym_state_def new_ym2151_interface_def)
  have h1: "m_backbuffer_used (Ym_interface ?g) \<le> m_backbuffer_size (Ym_interface ?g)"
    and h2: "unat (m_backbuffer_size (Ym_interface ?g)) \<le> length (m_backbuffer (Ym_interface ?g))"
    and h3: "m_backbuffer_size (Ym_interface ?g) \<le> 0x80000000"
    and h4: "0 < get_sample_rate (Ym_interface ?g)"
    and h5: "get_sample_rate (Ym_interface ?g) \<le> 4000000"
    by (simp_all add: get_sample_rate_def new_ym_state_def new_ym2151_interface_def)
  have e: "clocks_elapsed ?g = 0" by (simp add: new_ym_state_def)
  have q0: "samples_requested (Ym_interface ?g) = 0"
    by (simp add: samples_requested_def new_ym_state_def new_ym2151_interface_def)
  have c0: "chip_generated (m_chip (Ym_interface ?g)) = 0"
    by (simp add: new_ym_state_def new_ym2151_interface_def new_chip_def)
  have room: "unat (m_backbuffer_size (Ym_interface ?g)) - unat (m_backbuffer_used (Ym_interface ?g)) = 62500"
    by (simp add: new_ym_state_def new_ym2151_interface_def)
  have h6: "clocks_elapsed ?g < clocks_per_sample ?g" by (simp add: cps e)
  have h7: "\<forall>c \<in> set [100, 100, 100 :: 32 word]. unat c + unat (clocks_per_sample ?g) \<le> 2 ^ 32"
    by (simp add: cps)
  have h8: "unat (300 :: 32 word) = sum_list (map unat [100, 100, 100 :: 32 word]) \<and>
      unat (300 :: 32 word) + unat (clocks_per_sample ?g) \<le> 2 ^ 32" by (simp add: cps)
  have d: "(unat (clocks_elapsed ?g) + sum_list (map unat [100, 100, 100 :: 32 word]))
             div unat (clocks_per_sample ?g) = 2"
    and m: "(unat (clocks_elapsed ?g) + sum_list (map unat [100, 100, 100 :: 32 word]))
             mod unat (clocks_per_sample ?g) = 44"
    by (simp_all add: cps e)
  have n: "0 + (2::nat) = 2" "0 + min (2::nat) 62500 = 2" by simp_all
  note t = prerender_carries_remainder [OF h1 h2 h3 h4 h5 h6 h7, unfolded d m q0 c0 room n]
  from t have many: "\<exists>g'. prerender_run [100, 100, 100] ?g = Inr g' \<and>
          samples_requested (Ym_interface g') = 2 \<and>
          chip_generated (m_chip (Ym_interface g')) = 2 \<and>
          unat (clocks_elapsed g') = 44"
    by (rule conjunct1)
  from t have "unat (300 :: 32 word) = sum_list (map unat [100, 100, 100 :: 32 word]) \<and>
      unat (300 :: 32 word) + unat (clocks_per_sample ?g) \<le> 2 ^ 32 \<longrightarrow>
      (\<exists>g'. prerender_run [300] ?g = Inr g' \<and>
          samples_requested (Ym_interface g') = 2 \<and>
          chip_generated (m_chip (Ym_interface g')) = 2 \<and>
          unat (clocks_elapsed g') = 44)"
    by blast
  with h8 have single: "\<exists>g'. prerender_run [300] ?g = Inr g' \<and>
          samples_requested (Ym_interface g') = 2 \<and>
          chip_generated (m_chip (Ym_interface g')) = 2 \<and>
          unat (clocks_elapsed g') = 44"
    by (rule rev_mp)
  from many single show ?thesis by (rule conjI)
qed

subsection \<open>Rendering\<close>

lemma init_resamplers_frame:
  "m_backbuffer (init_resamplers r s) = m_backbuffer s"
  "m_backbuffer_size (init_resamplers r s) = m_backbuffer_size s"
  "m_backbuffer_used (init_resamplers r s) = m_backbuffer_used s"
  "m_write_queue (init_resamplers r s) = m_write_queue s"
  "m_chip_sample_rate (init_resamplers r s) = m_chip_sample_rate s"
  "m_backbuffer_resampled (init_resamplers r s) = m_backbuffer_resampled s"
  "printed (init_resamplers r s) = printed s"
  "pregenerate_calls (init_resamplers r s) = pregenerate_calls s"
  "m_chip (init_resamplers r s) = m_chip s"
  by (simp_all add: init_resamplers_def)

text \<open>Nothing in the file pushes on \<^verbatim>\<open>m_backbuffer_resampled\<close>, so both queues are empty in
  every state the program reaches. From such a state, with a non-zero output rate and
  the backbuffer within its capacity, \<^verbatim>\<open>generate\<close> returns the caller's buffer as it got
  it, whatever the number of samples asked for, and leaves the backbuffer empty.\<close>

lemma generate_result:
  assumes q0: "m_backbuffer_resampled s 0 = []" and q1: "m_backbuffer_resampled s 1 = []"
    and rate: "sample_rate \<noteq> 0"
    and inv: "m_backbuffer_used s \<le> m_backbuffer_size s"
    and arr: "unat (m_backbuffer_size s) \<le> length (m_backbuffer s)"
  shows "\<exists>s'. generate buffers samples sample_rate s = Inr (buffers, s') \<and>
     m_backbuffer_used s' = 0 \<and>
     m_backbuffer_resampled s' 0 = [] \<and> m_backbuffer_resampled s' 1 = [] \<and>
     m_backbuffer_size s' = m_backbuffer_size s \<and>
     unat (m_backbuffer_size s') \<le> length (m_backbuffer s') \<and>
     m_chip_sample_rate s' = m_chip_sample_rate s"
proof -
  let ?s1 = "init_resamplers sample_rate s"
  let ?s2 = "?s1\<lparr>m_backbuffer_resampled := (m_backbuffer_resampled ?s1)(0 := [], 1 := [])\<rparr>"
  let ?needed = "1 + (samples * m_chip_sample_rate ?s2) div sample_rate"
  have l0: "use_leftover (m_backbuffer_resampled ?s1 0) 0 samples 0 buffers = Inr ([], 0, buffers)"
    by (simp add: init_resamplers_frame q0)
  have l1: "use_leftover (m_backbuffer_resampled ?s1 (Suc 0)) 0 samples (Suc 0) buffers
      = Inr ([], 0, buffers)"
    using q1 by (simp add: init_resamplers_frame)
  have unfold: "generate buffers samples sample_rate s =
      (case (if m_backbuffer_used ?s2 < ?needed
             then pregenerate_samples (?needed - m_backbuffer_used ?s2) ?s2 else Inr ?s2) of
         Inl e \<Rightarrow> Inl e
       | Inr s4 \<Rightarrow> (case remove_used (m_backbuffer_used s4) samples s4 of
                       Inl e \<Rightarrow> Inl e | Inr s5 \<Rightarrow> Inr (buffers, s5)))"
    using rate by (simp add: generate_def Let_def l0 l1 cong: sum.case_cong)
  have inv2: "m_backbuffer_used ?s2 \<le> m_backbuffer_size ?s2"
    and arr2: "unat (m_backbuffer_size ?s2) \<le> length (m_backbuffer ?s2)"
    using inv arr by (simp_all add: init_resamplers_frame)
  show ?thesis
  proof (cases "m_backbuffer_used ?s2 < ?needed")
    case False
    then have "generate buffers samples sample_rate s = Inr (buffers, ?s2\<lparr>m_backbuffer_used := 0\<rparr>)"
      unfolding unfold by (simp add: remove_used_def)
    then show ?thesis using arr by (simp add: init_resamplers_frame)
  next
    case True
    then have "m_backbuffer_used ?s2 \<le> ?needed" by simp
    then have "unat (?needed - m_backbuffer_used ?s2) = unat ?needed - unat (m_backbuffer_used ?s2)"
      and "unat (m_backbuffer_used ?s2) \<le> unat ?needed"
      by (simp_all add: unat_sub word_le_nat_alt)
    then have "unat (m_backbuffer_used ?s2) + unat (?needed - m_backbuffer_used ?s2) = unat ?needed"
      by simp
    moreover have "unat ?needed < 2 ^ 32"
      using unsigned_less [of ?needed, where 'a = nat] by simp
    ultimately have nowrap:
      "unat (m_backbuffer_used ?s2) + unat (?needed - m_backbuffer_used ?s2) < 2 ^ 32" by simp
    let ?u = "unat (m_backbuffer_used ?s2)"
    let ?m = "min (unat (?needed - m_backbuffer_used ?s2)) (unat (m_backbuffer_size ?s2) - ?u)"
    from pregenerate_samples_result [OF inv2 arr2 nowrap] obtain s4 where
      r: "pregenerate_samples (?needed - m_backbuffer_used ?s2) ?s2 = Inr s4"
      and rb: "m_backbuffer s4 = take ?u (m_backbuffer ?s2)
        @ [chip_generated (m_chip ?s2) ..< chip_generated (m_chip ?s2) + ?m]
        @ drop (?u + ?m) (m_backbuffer ?s2)"
      and rs: "m_backbuffer_size s4 = m_backbuffer_size ?s2"
      and rr: "m_chip_sample_rate s4 = m_chip_sample_rate ?s2"
      and rq: "m_backbuffer_resampled s4 = m_backbuffer_resampled ?s2"
      by blast
    have le: "?u \<le> unat (m_backbuffer_size ?s2)" using inv2 by (simp add: word_le_nat_alt)
    have len: "unat (m_backbuffer_size s4) \<le> length (m_backbuffer s4)"
      unfolding rs rb using arr2 le by simp
    have "generate buffers samples sample_rate s = Inr (buffers, s4\<lparr>m_backbuffer_used := 0\<rparr>)"
      unfolding unfold using True r by (simp add: remove_used_def)
    then show ?thesis using len rs rr rq by (simp add: init_resamplers_frame)
  qed
qed

text \<open>
  Claim C1 fails on the code. Rendering 2 stereo pairs at 48000 Hz from the initial
  state, and then 3 more, returns both output buffers exactly as the caller passed them:
  no sample is delivered, where the claim asks for 2, 3 and 5 in total.
\<close>

theorem render_delivers_no_samples:
  "\<exists>g1 g2. YM_render [7, 7, 7, 7] 2 48000 (new_ym_state 62500) = Inr ([7, 7, 7, 7], g1) \<and>
     YM_render [8, 8, 8, 8, 8, 8] 3 48000 g1 = Inr ([8, 8, 8, 8, 8, 8], g2)"
proof -
  let ?i = "new_ym2151_interface 62500"
  have q: "m_backbuffer_resampled ?i 0 = []" "m_backbuffer_resampled ?i 1 = []"
    and inv: "m_backbuffer_used ?i \<le> m_backbuffer_size ?i"
    and arr: "unat (m_backbuffer_size ?i) \<le> length (m_backbuffer ?i)"
    by (simp_all add: new_ym2151_interface_def)
  have rate: "(48000 :: 32 word) \<noteq> 0" by simp
  from generate_result [OF q rate inv arr, of "[7, 7, 7, 7]" 2] obtain i1 where
    r1: "generate [7, 7, 7, 7] 2 48000 ?i = Inr ([7, 7, 7, 7], i1)"
    and u1: "m_backbuffer_used i1 = 0"
    and q1: "m_backbuffer_resampled i1 0 = []" "m_backbuffer_resampled i1 1 = []"
    and arr1: "unat (m_backbuffer_size i1) \<le> length (m_backbuffer i1)"
    by blast
  have inv1: "m_backbuffer_used i1 \<le> m_backbuffer_size i1" by (simp add: u1)
  from generate_result [OF q1 rate inv1 arr1, of "[8, 8, 8, 8, 8, 8]" 3] obtain i2 where
    r2: "generate [8, 8, 8, 8, 8, 8] 3 48000 i1 = Inr ([8, 8, 8, 8, 8, 8], i2)"
    by blast
  have "YM_render [7, 7, 7, 7] 2 48000 (new_ym_state 62500)
      = Inr ([7, 7, 7, 7], (new_ym_state 62500)\<lparr>Ym_interface := i1\<rparr>)"
    using r1 by (simp add: YM_render_def new_ym_state_def)
  moreover have "YM_render [8, 8, 8, 8, 8, 8] 3 48000 ((new_ym_state 62500)\<lparr>Ym_interface := i1\<rparr>)
      = Inr ([8, 8, 8, 8, 8, 8], (new_ym_state 62500)\<lparr>Ym_interface := i2\<rparr>)"
    using r2 by (simp add: YM_render_def)
  ultimately show ?thesis by blast
qed

text \<open>
  Claim C9 fails on the code. After \<^verbatim>\<open>YM_prerender(1280)\<close> the backbuffer holds 10 native
  samples. Rendering one sample at the native rate needs at most 2 of them
  (\<^verbatim>\<open>orig_samples_needed\<close> is 1 + 1 * 62500 / 62500) and reads none, yet the call leaves
  \<^verbatim>\<open>m_backbuffer_used\<close> at 0: all 10 are removed. The branch of lines 418-420 that would keep
  the samples not used takes the count down by the number of output samples asked for,
  not by \<^verbatim>\<open>samples_used\<close>: with 10 samples held, 2 used and 1 asked for, it leaves 9.
\<close>

theorem render_discards_whole_backbuffer:
  "(\<exists>g1 b g2. YM_prerender 1280 (new_ym_state 62500) = Inr g1 \<and>
       unat (m_backbuffer_used (Ym_interface g1)) = 10 \<and>
       YM_render [7, 7] 1 62500 g1 = Inr (b, g2) \<and>
       unat (m_backbuffer_used (Ym_interface g2)) = 0) \<and>
   map_sum id (\<lambda>s. unat (m_backbuffer_used s))
     (remove_used 2 1 ((new_ym2151_interface 62500)\<lparr>m_backbuffer_used := 10\<rparr>)) = Inr 9"
proof -
  let ?g = "new_ym_state 62500"
  let ?i = "new_ym2151_interface 62500"
  have inv: "m_backbuffer_used ?i \<le> m_backbuffer_size ?i"
    and arr: "unat (m_backbuffer_size ?i) \<le> length (m_backbuffer ?i)"
    and nowrap: "unat (m_backbuffer_used ?i) + unat (10 :: 32 word) < 2 ^ 32"
    by (simp_all add: new_ym2151_interface_def)
  from pregenerate_samples_result [OF inv arr nowrap] obtain i1 where
    r1: "pregenerate_samples 10 ?i = Inr i1"
    and u1: "unat (m_backbuffer_used i1) = 10"
    and b1: "length (m_backbuffer i1) = 62500"
    and s1: "m_backbuffer_size i1 = 62500"
    and q1: "m_backbuffer_resampled i1 = (\<lambda>_. [])"
    by (auto simp add: new_ym2151_interface_def new_chip_def)
  let ?g1 = "?g\<lparr>clocks_elapsed := clocks_elapsed ?g + 1280\<rparr>"
  have gi1: "Ym_interface ?g1 = ?i" by (simp add: new_ym_state_def)
  have sr: "get_sample_rate ?i = 62500"
    by (simp add: get_sample_rate_def new_ym2151_interface_def)
  have cps: "clocks_per_sample ?g1 = 128"
    by (simp add: clocks_per_sample_def get_sample_rate_def new_ym_state_def
        new_ym2151_interface_def)
  have str: "samples_to_render ?g1 = 10"
    by (simp add: samples_to_render_def cps) (simp add: new_ym_state_def)
  have "YM_prerender 1280 ?g = Inr (?g1\<lparr>Ym_interface := i1,
      clocks_elapsed := clocks_elapsed ?g1 - samples_to_render ?g1 * clocks_per_sample ?g1\<rparr>)"
    unfolding YM_prerender_def Let_def sr cps str gi1 r1 by simp
  then obtain g1 where p: "YM_prerender 1280 ?g = Inr g1" and gi: "Ym_interface g1 = i1"
    by simp
  have inv1: "m_backbuffer_used i1 \<le> m_backbuffer_size i1"
    using u1 s1 by (simp add: word_le_nat_alt)
  have arr1: "unat (m_backbuffer_size i1) \<le> length (m_backbuffer i1)" by (simp add: s1 b1)
  have rate: "(62500 :: 32 word) \<noteq> 0" by simp
  from generate_result [OF _ _ rate inv1 arr1, of "[7, 7]" 1] q1 obtain i2 where
    r2: "generate [7, 7] 1 62500 i1 = Inr ([7, 7], i2)" and u2: "m_backbuffer_used i2 = 0"
    by auto
  have "YM_render [7, 7] 1 62500 g1 = Inr ([7, 7], g1\<lparr>Ym_interface := i2\<rparr>)"
    using r2 gi by (simp add: YM_render_def)
  with p gi u1 u2 have first: "\<exists>g1 b g2. YM_prerender 1280 ?g = Inr g1 \<and>
       unat (m_backbuffer_used (Ym_interface g1)) = 10 \<and>
       YM_render [7, 7] 1 62500 g1 = Inr (b, g2) \<and>
       unat (m_backbuffer_used (Ym_interface g2)) = 0"
    by auto
  have second: "map_sum id (\<lambda>s. unat (m_backbuffer_used s))
     (remove_used 2 1 (?i\<lparr>m_backbuffer_used := 10\<rparr>)) = Inr 9"
    by (simp add: remove_used_def new_ym2151_interface_def)
  from first second show ?thesis by blast
qed

subsection \<open>The public operations return\<close>

lemma new_ym_state_well_formed:
  assumes "0 < rate" and "rate \<le> 4000000"
  shows "well_formed (new_ym_state rate)"
proof -
  have "unat rate \<le> 4000000" using assms(2) by (simp add: word_le_nat_alt)
  then have "rate \<le> 0x80000000" by (simp add: word_le_nat_alt)
  moreover have "0 < clocks_per_sample (new_ym_state rate)"
    using clocks_per_sample_nat(2) [of "new_ym_state rate"] assms
    by (simp add: word_less_nat_alt new_ym_state_def new_ym2151_interface_def get_sample_rate_def)
  ultimately show ?thesis
    using assms
    by (simp add: well_formed_def new_ym_state_def new_ym2151_interface_def get_sample_rate_def)
qed

lemma step_returns:
  assumes wf: "well_formed g" and ok: "sane_op x"
  shows "\<exists>g1. step x g = Inr g1 \<and> well_formed g1"
proof -
  let ?i = "Ym_interface g"
  from wf have inv: "m_backbuffer_used ?i \<le> m_backbuffer_size ?i"
    and arr: "unat (m_backbuffer_size ?i) \<le> length (m_backbuffer ?i)"
    and cap: "m_backbuffer_size ?i \<le> 0x80000000"
    and r0: "0 < get_sample_rate ?i" and r1: "get_sample_rate ?i \<le> 4000000"
    and el: "clocks_elapsed g < clocks_per_sample g"
    and q0: "m_backbuffer_resampled ?i 0 = []" and q1: "m_backbuffer_resampled ?i 1 = []"
    by (simp_all add: well_formed_def Let_def)
  show ?thesis
  proof (cases x)
    case (Port_write offset val)
    then show ?thesis using wf
      by (simp add: well_formed_def Let_def YM_write_def interface_write_def
          clocks_per_sample_def get_sample_rate_def)
  next
    case (Debug_write addr val)
    then show ?thesis using wf
      by (simp add: well_formed_def Let_def YM_debug_write_def debug_write_def
          clocks_per_sample_def get_sample_rate_def)
  next
    case (Prerender c)
    let ?p = "unat (clocks_per_sample g)"
    have "?p \<le> 8000000"
      using clocks_per_sample_nat(1) [OF r0 r1] by (simp add: div_le_dividend)
    moreover have "unat (clocks_elapsed g) < ?p" using el by (simp add: word_less_nat_alt)
    moreover have "unat c + 8000000 \<le> 2 ^ 32" using ok Prerender by simp
    ultimately have nw: "unat (clocks_elapsed g) + unat c < 2 ^ 32" by simp
    from YM_prerender_result [OF inv arr cap r0 r1 nw] obtain g1 where
      r: "YM_prerender c g = Inr g1"
      and e1: "unat (clocks_elapsed g1) = (unat (clocks_elapsed g) + unat c) mod ?p"
      and f: "m_backbuffer_used (Ym_interface g1) \<le> m_backbuffer_size (Ym_interface g1)"
        "unat (m_backbuffer_size (Ym_interface g1)) \<le> length (m_backbuffer (Ym_interface g1))"
        "m_backbuffer_size (Ym_interface g1) = m_backbuffer_size ?i"
        "get_sample_rate (Ym_interface g1) = get_sample_rate ?i"
        "clocks_per_sample g1 = clocks_per_sample g"
        "m_backbuffer_resampled (Ym_interface g1) = m_backbuffer_resampled ?i"
      by blast
    have "0 < ?p" using el by (simp add: word_less_nat_alt)
    then have "clocks_elapsed g1 < clocks_per_sample g1"
      using e1 f(5) by (simp add: word_less_nat_alt)
    then have "well_formed g1"
      using f cap r0 r1 q0 q1 by (simp add: well_formed_def Let_def)
    with r Prerender show ?thesis by simp
  next
    case (Render buffer samples sample_rate)
    then have rate: "sample_rate \<noteq> 0" using ok by simp
    from generate_result [OF q0 q1 rate inv arr, of buffer samples] obtain i1 where
      r: "generate buffer samples sample_rate ?i = Inr (buffer, i1)"
      and f: "m_backbuffer_used i1 = 0"
        "m_backbuffer_resampled i1 0 = []" "m_backbuffer_resampled i1 1 = []"
        "m_backbuffer_size i1 = m_backbuffer_size ?i"
        "unat (m_backbuffer_size i1) \<le> length (m_backbuffer i1)"
        "m_chip_sample_rate i1 = m_chip_sample_rate ?i"
      by blast
    have "well_formed (g\<lparr>Ym_interface := i1\<rparr>)"
      using f cap r0 r1 el
      by (simp add: well_formed_def Let_def get_sample_rate_def clocks_per_sample_def)
    with r Render show ?thesis by (simp add: YM_render_def)
  next
    case Clear_backbuffer
    then show ?thesis using wf
      by (simp add: well_formed_def Let_def YM_clear_backbuffer_def clear_backbuffer_def
          clocks_per_sample_def get_sample_rate_def)
  next
    case (Set_strict enable)
    then show ?thesis using wf
      by (simp add: well_formed_def Let_def YM_set_strict_busy_def
          clocks_per_sample_def get_sample_rate_def)
  next
    case (Set_busy_end clocks)
    then show ?thesis using wf
      by (simp add: well_formed_def Let_def ymfm_set_busy_end_def
          clocks_per_sample_def get_sample_rate_def)
  next
    case (Set_timer tnum duration)
    then show ?thesis using wf
      by (simp add: well_formed_def Let_def ymfm_set_timer_def
          clocks_per_sample_def get_sample_rate_def)
  qed
qed

lemma run_returns:
  "well_formed g \<Longrightarrow> \<forall>x \<in> set xs. sane_op x \<Longrightarrow> \<exists>g'. run xs g = Inr g' \<and> well_formed g'"
proof (induction xs arbitrary: g)
  case Nil
  then show ?case by simp
next
  case (Cons x xs)
  from step_returns [OF Cons.prems(1), of x] Cons.prems(2)
  obtain g1 where s: "step x g = Inr g1" and w: "well_formed g1" by auto
  from Cons.IH [OF w] Cons.prems(2) obtain g' where "run xs g1 = Inr g'" and "well_formed g'"
    by auto
  with s show ?case by simp
qed

subsection \<open>Register writes, the latch and the debug path\<close>

text \<open>
  Claim C4. A write to the data port (odd \<open>offset\<close>) goes to the address latched before.
  If the chip is not busy, the engine gets the address and the data at once and both the
  engine's register and the latch hold the value. If the chip is busy and strict timing
  is on, the engine and the queue are left alone and a warning naming address and value
  is printed. If the chip is busy and strict timing is off, the pair is appended to the
  queue and the engine is left alone.
\<close>

theorem write_applied_dropped_or_queued:
  assumes "offset AND 1 \<noteq> 0"
  shows "(\<not> ymfm_is_busy (Ym_interface g) \<longrightarrow>
            m_chip (Ym_interface (YM_write offset val g)) =
              write_data val False (write_address (Last_address g) (m_chip (Ym_interface g))) \<and>
            chip_calls (m_chip (Ym_interface (YM_write offset val g))) =
              chip_calls (m_chip (Ym_interface g)) @ [WriteAddress (Last_address g), WriteData val False] \<and>
            get_register_data (m_chip (Ym_interface (YM_write offset val g))) (Last_address g) = val \<and>
            Ym_registers (YM_write offset val g) (Last_address g) = val \<and>
            m_write_queue (Ym_interface (YM_write offset val g)) = m_write_queue (Ym_interface g) \<and>
            printed (Ym_interface (YM_write offset val g)) = printed (Ym_interface g)) \<and>
         (ymfm_is_busy (Ym_interface g) \<and> Ym_strict_busy g \<longrightarrow>
            m_chip (Ym_interface (YM_write offset val g)) = m_chip (Ym_interface g) \<and>
            m_write_queue (Ym_interface (YM_write offset val g)) = m_write_queue (Ym_interface g) \<and>
            printed (Ym_interface (YM_write offset val g)) =
              printed (Ym_interface g) @ [WarnWriteWhileBusy (Last_address g) val]) \<and>
         (ymfm_is_busy (Ym_interface g) \<and> \<not> Ym_strict_busy g \<longrightarrow>
            m_chip (Ym_interface (YM_write offset val g)) = m_chip (Ym_interface g) \<and>
            m_write_queue (Ym_interface (YM_write offset val g)) =
              m_write_queue (Ym_interface g) @ [(Last_address g, val)] \<and>
            printed (Ym_interface (YM_write offset val g)) = printed (Ym_interface g))"
  using assms
  by (simp add: YM_write_def YM_is_strict_def interface_write_def Let_def
      write_data_def write_address_def get_register_data_def)

theorem write_applied_dropped_or_queued_witness:
  "chip_calls (m_chip (Ym_interface (YM_write 1 0x55 (YM_write 0 0x20 (new_ym_state 62500))))) =
     [WriteAddress 0x20, WriteData 0x55 False] \<and>
   Ym_registers (YM_write 1 0x55 (YM_write 0 0x20 (new_ym_state 62500))) 0x20 = 0x55 \<and>
   printed (Ym_interface (YM_write 1 0x55 (YM_write 0 0x20 (YM_set_strict_busy True
     ((new_ym_state 62500)\<lparr>Ym_interface := ymfm_set_busy_end 64 (new_ym2151_interface 62500)\<rparr>))))) =
     [WarnWriteWhileBusy 0x20 0x55] \<and>
   m_write_queue (Ym_interface (YM_write 1 0x55 (YM_write 0 0x20 (YM_set_strict_busy True
     ((new_ym_state 62500)\<lparr>Ym_interface := ymfm_set_busy_end 64 (new_ym2151_interface 62500)\<rparr>))))) = [] \<and>
   m_write_queue (Ym_interface (YM_write 1 0x55 (YM_write 0 0x20
     ((new_ym_state 62500)\<lparr>Ym_interface := ymfm_set_busy_end 64 (new_ym2151_interface 62500)\<rparr>)))) =
     [(0x20, 0x55)]"
proof -
  let ?free = "YM_write 0 0x20 (new_ym_state 62500)"
  let ?busy = "(new_ym_state 62500)\<lparr>Ym_interface := ymfm_set_busy_end 64 (new_ym2151_interface 62500)\<rparr>"
  let ?strict = "YM_write 0 0x20 (YM_set_strict_busy True ?busy)"
  let ?lax = "YM_write 0 0x20 ?busy"
  have odd: "(1 :: 8 word) AND 1 \<noteq> 0" by simp
  have free: "\<not> ymfm_is_busy (Ym_interface ?free)" "Last_address ?free = 0x20"
    "chip_calls (m_chip (Ym_interface ?free)) = []"
    by (simp_all add: YM_write_def new_ym_state_def new_ym2151_interface_def new_chip_def
        ymfm_is_busy_def)
  have strict: "ymfm_is_busy (Ym_interface ?strict)" "Ym_strict_busy ?strict"
    "Last_address ?strict = 0x20" "printed (Ym_interface ?strict) = []"
    "m_write_queue (Ym_interface ?strict) = []"
    by (simp_all add: YM_write_def YM_set_strict_busy_def new_ym_state_def
        new_ym2151_interface_def ymfm_is_busy_def ymfm_set_busy_end_def)
  have lax: "ymfm_is_busy (Ym_interface ?lax)" "\<not> Ym_strict_busy ?lax"
    "Last_address ?lax = 0x20" "m_write_queue (Ym_interface ?lax) = []"
    by (simp_all add: YM_write_def new_ym_state_def
        new_ym2151_interface_def ymfm_is_busy_def ymfm_set_busy_end_def)
  have a: "chip_calls (m_chip (Ym_interface (YM_write 1 0x55 ?free))) =
      [WriteAddress 0x20, WriteData 0x55 False] \<and>
      Ym_registers (YM_write 1 0x55 ?free) 0x20 = 0x55"
    using write_applied_dropped_or_queued [where offset = 1 and g = ?free and val = "0x55", OF odd]
      free by (simp add: write_data_def write_address_def)
  have b: "printed (Ym_interface (YM_write 1 0x55 ?strict)) = [WarnWriteWhileBusy 0x20 0x55] \<and>
      m_write_queue (Ym_interface (YM_write 1 0x55 ?strict)) = []"
    using write_applied_dropped_or_queued [where offset = 1 and g = ?strict and val = "0x55", OF odd]
      strict by simp
  have c: "m_write_queue (Ym_interface (YM_write 1 0x55 ?lax)) = [(0x20, 0x55)]"
    using write_applied_dropped_or_queued [where offset = 1 and g = ?lax and val = "0x55", OF odd]
      lax by simp
  from a b c show ?thesis by blast
qed

lemma step_registers:
  assumes "step x g = Inr g1"
  shows "Ym_registers g1 =
           (case x of
              Port_write offset val \<Rightarrow>
                if offset AND 1 \<noteq> 0 then (Ym_registers g)(Last_address g := val) else Ym_registers g
            | Debug_write addr val \<Rightarrow> (Ym_registers g)(addr := val)
            | _ \<Rightarrow> Ym_registers g) \<and>
         Last_address g1 =
           (case x of
              Port_write offset val \<Rightarrow> if offset AND 1 \<noteq> 0 then Last_address g else val
            | _ \<Rightarrow> Last_address g)"
proof (cases x)
  case (Port_write offset val)
  with assms show ?thesis by (auto simp add: YM_write_def Let_def)
next
  case (Debug_write addr val)
  with assms show ?thesis by (auto simp add: YM_debug_write_def Let_def)
next
  case (Prerender clocks)
  with assms show ?thesis
    by (auto simp add: YM_prerender_def Let_def split: if_splits sum.splits)
next
  case (Render buffer samples sample_rate)
  with assms show ?thesis
    by (auto simp add: YM_render_def split: sum.splits prod.splits)
next
  case Clear_backbuffer
  with assms show ?thesis by (auto simp add: YM_clear_backbuffer_def)
next
  case (Set_strict enable)
  with assms show ?thesis by (auto simp add: YM_set_strict_busy_def)
next
  case (Set_busy_end clocks)
  with assms show ?thesis by auto
next
  case (Set_timer tnum duration)
  with assms show ?thesis by auto
qed

lemma most_recent_Nil: "most_recent [] a old = old"
  by (simp add: most_recent_def)

lemma most_recent_Cons:
  "most_recent ((a', v) # ws) a old = most_recent ws a (if a = a' then v else old)"
  by (simp add: most_recent_def map_add_def split: option.splits)

lemma latch_after_run:
  "run xs g = Inr g' \<Longrightarrow>
     Ym_registers g' a = most_recent (submitted_writes (Last_address g) xs) a (Ym_registers g a)"
proof (induction xs arbitrary: g)
  case Nil
  then show ?case by (simp add: most_recent_Nil)
next
  case (Cons x xs)
  from Cons.prems obtain g1 where s: "step x g = Inr g1" and r: "run xs g1 = Inr g'"
    by (auto split: sum.splits)
  note ih = Cons.IH [OF r]
  note st = step_registers [OF s]
  show ?case
  proof (cases x)
    case (Port_write offset val)
    with ih st show ?thesis by (simp add: most_recent_Cons)
  next
    case (Debug_write addr val)
    with ih st show ?thesis by (simp add: most_recent_Cons)
  next
    case (Prerender clocks)
    with ih st show ?thesis by simp
  next
    case (Render buffer samples sample_rate)
    with ih st show ?thesis by simp
  next
    case Clear_backbuffer
    with ih st show ?thesis by simp
  next
    case (Set_strict enable)
    with ih st show ?thesis by simp
  next
    case (Set_busy_end clocks)
    with ih st show ?thesis by simp
  next
    case (Set_timer tnum duration)
    with ih st show ?thesis by simp
  qed
qed

text \<open>
  Claim C5, as amended. After any run of operations (port writes, debug writes,
  production, rendering, busy, timer and strict-mode changes), each entry of
  \<^verbatim>\<open>Ym_registers\<close> is the value of the most recent write submitted to that address through
  the data port or the debug path, or its initial value when there was none. Whether the
  engine ever received the write plays no part: \<^verbatim>\<open>YM_write\<close> stores the value before it
  calls \<^verbatim>\<open>write\<close>. From a well-formed state every such run returns.
\<close>

theorem latch_holds_last_submitted_write:
  "(run xs g = Inr g' \<longrightarrow>
      Ym_registers g' a = most_recent (submitted_writes (Last_address g) xs) a (Ym_registers g a)) \<and>
   (well_formed g \<and> (\<forall>x \<in> set xs. sane_op x) \<longrightarrow> (\<exists>g1. run xs g = Inr g1))"
  using latch_after_run [of xs g g' a] run_returns [of g xs] by blast

theorem latch_holds_last_submitted_write_witness:
  "\<exists>g'. run [Port_write 0 0x20, Port_write 1 0x55, Set_busy_end 64, Port_write 1 0x66,
              Prerender 1280, Render [0, 0] 1 48000,
              Debug_write 0x30 7, Port_write 0 0x28, Port_write 1 0x11, Port_write 1 0x12]
           (new_ym_state 62500) = Inr g' \<and>
        Ym_registers g' 0x20 = 0x66 \<and> Ym_registers g' 0x30 = 7 \<and>
        Ym_registers g' 0x28 = 0x12 \<and> Ym_registers g' 0x08 = 0"
proof -
  let ?xs = "[Port_write 0 0x20, Port_write 1 0x55, Set_busy_end 64, Port_write 1 0x66,
              Prerender 1280, Render [0, 0] 1 48000,
              Debug_write 0x30 7, Port_write 0 0x28, Port_write 1 0x11, Port_write 1 0x12]"
  have wf: "well_formed (new_ym_state 62500)" by (rule new_ym_state_well_formed) simp_all
  have ok: "\<forall>x \<in> set ?xs. sane_op x" by simp
  from latch_holds_last_submitted_write [of ?xs "new_ym_state 62500"] wf ok
  obtain g' where r: "run ?xs (new_ym_state 62500) = Inr g'" by blast
  have l: "Last_address (new_ym_state 62500) = 0" and z: "Ym_registers (new_ym_state 62500) = (\<lambda>_. 0)"
    by (simp_all add: new_ym_state_def)
  from latch_holds_last_submitted_write [of ?xs "new_ym_state 62500" g'] r have
    "\<And>a. Ym_registers g' a = most_recent (submitted_writes 0 ?xs) a 0"
    unfolding l z by blast
  then have "Ym_registers g' 0x20 = 0x66 \<and> Ym_registers g' 0x30 = 7 \<and>
        Ym_registers g' 0x28 = 0x12 \<and> Ym_registers g' 0x08 = 0"
    by (simp add: most_recent_def)
  with r show ?thesis by blast
qed

text \<open>The claim as stated fails. With the chip busy and strict timing on, a write of 0x55
  to register 0x20 is dropped: the engine receives no call, its register 0x20 still holds
  0 and nothing is queued. The latch entry 0x20 nevertheless holds 0x55, the value of
  the dropped write.\<close>

theorem latch_holds_dropped_write_counterexample:
  "map_sum id (\<lambda>g. (Ym_registers g 0x20,
                     chip_calls (m_chip (Ym_interface g)),
                     get_register_data (m_chip (Ym_interface g)) 0x20,
                     m_write_queue (Ym_interface g),
                     printed (Ym_interface g)))
     (run [Set_busy_end 64, Set_strict True, Port_write 0 0x20, Port_write 1 0x55]
        (new_ym_state 62500))
   = Inr (0x55, [], 0, [], [WarnWriteWhileBusy 0x20 0x55])"
  by (simp add: YM_write_def YM_is_strict_def YM_set_strict_busy_def interface_write_def
      ymfm_is_busy_def ymfm_set_busy_end_def get_register_data_def Let_def
      new_ym_state_def new_ym2151_interface_def new_chip_def)

text \<open>
  Claim C6, as amended. \<^verbatim>\<open>YM_debug_read(a)\<close> returns the latch entry \<^verbatim>\<open>Ym_registers[a]\<close>: it
  does not depend on the interface object or the engine in it, and after any run of
  operations it is the most recent value submitted to \<open>a\<close> through the data port or the
  debug path. The engine's own storage is what the method \<^verbatim>\<open>ym2151_interface::debug_read\<close>
  returns, and \<^verbatim>\<open>YM_debug_read\<close> does not call it.
\<close>

theorem debug_read_returns_latch:
  "YM_debug_read g a = Ym_registers g a \<and>
   YM_debug_read (g\<lparr>Ym_interface := i\<rparr>) a = YM_debug_read g a \<and>
   debug_read i a = get_register_data (m_chip i) a \<and>
   (run xs g0 = Inr g' \<longrightarrow>
      YM_debug_read g' a = most_recent (submitted_writes (Last_address g0) xs) a (Ym_registers g0 a))"
  using latch_after_run [of xs g0 g' a]
  by (simp add: YM_debug_read_def debug_read_def)

theorem debug_read_returns_latch_witness:
  "\<exists>g'. run [Port_write 0 0x1B, Port_write 1 0x80, Debug_write 0x1B 0xC1] (new_ym_state 62500) = Inr g' \<and>
     YM_debug_read g' 0x1B = 0xC1 \<and>
     YM_debug_read (g'\<lparr>Ym_interface := new_ym2151_interface 62500\<rparr>) 0x1B = 0xC1"
proof -
  let ?xs = "[Port_write 0 0x1B, Port_write 1 0x80, Debug_write 0x1B 0xC1]"
  obtain g' where r: "run ?xs (new_ym_state 62500) = Inr g'" by simp
  have l: "Last_address (new_ym_state 62500) = 0" and z: "Ym_registers (new_ym_state 62500) = (\<lambda>_. 0)"
    by (simp_all add: new_ym_state_def)
  note w = debug_read_returns_latch [where g = g' and a = "0x1B" and i = "new_ym2151_interface 62500"
      and xs = ?xs and g' = g' and ?g0.0 = "new_ym_state 62500"]
  from w have "YM_debug_read (g'\<lparr>Ym_interface := new_ym2151_interface 62500\<rparr>) 0x1B = YM_debug_read g' 0x1B"
    by blast
  moreover from w r have "YM_debug_read g' 0x1B = most_recent (submitted_writes 0 ?xs) 0x1B 0"
    unfolding l z by blast
  ultimately have "YM_debug_read g' 0x1B = most_recent (submitted_writes 0 ?xs) 0x1B 0"
    and "YM_debug_read (g'\<lparr>Ym_interface := new_ym2151_interface 62500\<rparr>) 0x1B
      = most_recent (submitted_writes 0 ?xs) 0x1B 0"
    by simp_all
  then have "YM_debug_read g' 0x1B = 0xC1 \<and>
     YM_debug_read (g'\<lparr>Ym_interface := new_ym2151_interface 62500\<rparr>) 0x1B = 0xC1"
    by (simp add: most_recent_def)
  with r show ?thesis by blast
qed

text \<open>The claim as stated fails: after the dropped write of the scenario above,
  \<^verbatim>\<open>YM_debug_read(0x20)\<close> returns 0x55 while the engine's storage, read back by
  \<^verbatim>\<open>ym2151_interface::debug_read\<close>, holds 0.\<close>

theorem debug_read_not_engine_counterexample:
  "map_sum id (\<lambda>g. (YM_debug_read g 0x20, debug_read (Ym_interface g) 0x20))
     (run [Set_busy_end 64, Set_strict True, Port_write 0 0x20, Port_write 1 0x55]
        (new_ym_state 62500))
   = Inr (0x55, 0)"
  by (simp add: YM_write_def YM_is_strict_def YM_set_strict_busy_def interface_write_def
      ymfm_is_busy_def ymfm_set_busy_end_def get_register_data_def Let_def
      YM_debug_read_def debug_read_def
      new_ym_state_def new_ym2151_interface_def new_chip_def)

end
